theory Spec2Isabelle
  imports Complex_Main "HOL-Library.Word"
begin

unbundle bit_operations_syntax

section \<open>Go strings and byte slices\<close>

text \<open>
  A Go \<open>string\<close> is a sequence of bytes; it is modelled as \<^typ>\<open>string\<close> (a list of
  8-bit characters). The functions of package \<open>strings\<close> that the engine calls are written
  out on bytes.
\<close>

type_synonym byte = "8 word"

definition HasPrefix :: "string \<Rightarrow> string \<Rightarrow> bool" where
  "HasPrefix s p = (take (length p) s = p)"

definition HasSuffix :: "string \<Rightarrow> string \<Rightarrow> bool" where
  "HasSuffix s p = (length p \<le> length s \<and> drop (length s - length p) s = p)"

definition TrimPrefix :: "string \<Rightarrow> string \<Rightarrow> string" where
  "TrimPrefix s p = (if HasPrefix s p then drop (length p) s else s)"

text \<open>The ASCII white space: tab, line feed, vertical tab, form feed, carriage return, blank.\<close>

definition isSpace :: "char \<Rightarrow> bool" where
  "isSpace c = (c = CHR 0x09 \<or> c = CHR 0x0A \<or> c = CHR 0x0B \<or> c = CHR 0x0C
                \<or> c = CHR 0x0D \<or> c = CHR '' '')"

text \<open>
  \<open>strings.TrimSpace\<close> removes the leading and the trailing white space as Unicode
  defines it. \<open>spaceRunes\<close> lists the UTF-8 encodings of the runes of
  \<open>unicode.White_Space\<close>: the six ASCII bytes of \<open>isSpace\<close>, then U+0085, U+00A0,
  U+1680, U+2000 to U+200A, U+2028, U+2029, U+202F, U+205F and U+3000. At the left end a
  rune is removed while the text begins with one of these encodings, as
  \<open>utf8.DecodeRuneInString\<close> reads them; at the right end while it ends with one, as
  \<open>utf8.DecodeLastRuneInString\<close> reads them. A byte that belongs to no valid encoding
  of such a rune is no white space. On ASCII text this is the fast path of Go's
  function, which removes the bytes of \<open>isSpace\<close>. \<open>trimRunes rs s\<close> removes from
  the head of \<open>s\<close> the members of \<open>rs\<close>, one after the other, as long as there is one.
\<close>

definition spaceRunes :: "string list" where
  "spaceRunes =
     [[CHR 0x09], [CHR 0x0A], [CHR 0x0B], [CHR 0x0C], [CHR 0x0D], [CHR 0x20],
      [CHR 0xC2, CHR 0x85], [CHR 0xC2, CHR 0xA0], [CHR 0xE1, CHR 0x9A, CHR 0x80],
      [CHR 0xE2, CHR 0x80, CHR 0x80], [CHR 0xE2, CHR 0x80, CHR 0x81],
      [CHR 0xE2, CHR 0x80, CHR 0x82], [CHR 0xE2, CHR 0x80, CHR 0x83],
      [CHR 0xE2, CHR 0x80, CHR 0x84], [CHR 0xE2, CHR 0x80, CHR 0x85],
      [CHR 0xE2, CHR 0x80, CHR 0x86], [CHR 0xE2, CHR 0x80, CHR 0x87],
      [CHR 0xE2, CHR 0x80, CHR 0x88], [CHR 0xE2, CHR 0x80, CHR 0x89],
      [CHR 0xE2, CHR 0x80, CHR 0x8A], [CHR 0xE2, CHR 0x80, CHR 0xA8],
      [CHR 0xE2, CHR 0x80, CHR 0xA9], [CHR 0xE2, CHR 0x80, CHR 0xAF],
      [CHR 0xE2, CHR 0x81, CHR 0x9F], [CHR 0xE3, CHR 0x80, CHR 0x80]]"

fun trimRunes :: "string list \<Rightarrow> string \<Rightarrow> string" where
  "trimRunes rs [] = []"
| "trimRunes rs (c # cs) =
     (case find (HasPrefix (c # cs)) rs of
        None \<Rightarrow> c # cs
      | Some r \<Rightarrow> trimRunes rs (drop (length r - 1) cs))"

definition TrimSpace :: "string \<Rightarrow> string" where
  "TrimSpace s = rev (trimRunes (map rev spaceRunes) (rev (trimRunes spaceRunes s)))"

text \<open>The lower-case form of an ASCII byte.\<close>

definition toLowerByte :: "char \<Rightarrow> char" where
  "toLowerByte c =
     (let n = (of_char c :: nat) in if 65 \<le> n \<and> n \<le> 90 then char_of (n + 32) else c)"

fun Contains :: "string \<Rightarrow> string \<Rightarrow> bool" where
  "Contains [] sub = (sub = [])"
| "Contains (c # cs) sub = (HasPrefix (c # cs) sub \<or> Contains cs sub)"

text \<open>\<open>Cut s sep\<close> slices \<open>s\<close> around the first instance of \<open>sep\<close>.\<close>

fun Cut :: "string \<Rightarrow> string \<Rightarrow> (string \<times> string) option" where
  "Cut [] sep = (if sep = [] then Some ([], []) else None)"
| "Cut (c # cs) sep =
     (if HasPrefix (c # cs) sep then Some ([], drop (length sep) (c # cs))
      else (case Cut cs sep of None \<Rightarrow> None | Some (b, a) \<Rightarrow> Some (c # b, a)))"

text \<open>\<open>strings.SplitN(s, sep, 2)\<close>: at most two parts, split at the first separator.\<close>

definition SplitN2 :: "string \<Rightarrow> string \<Rightarrow> string list" where
  "SplitN2 s sep = (case Cut s sep of None \<Rightarrow> [s] | Some (b, a) \<Rightarrow> [b, a])"

lemma Cut_length:
  "Cut s sep = Some (b, a) \<Longrightarrow> length s = length b + length sep + length a"
proof (induction s arbitrary: b)
  case Nil
  then show ?case by (simp split: if_splits)
next
  case (Cons c cs)
  show ?case
  proof (cases "HasPrefix (c # cs) sep")
    case True
    then have "length (take (length sep) (c # cs)) = length sep"
      unfolding HasPrefix_def by simp
    then have "length sep \<le> length (c # cs)"
      by (simp add: min_def split: if_splits)
    with True Cons.prems show ?thesis by auto
  next
    case False
    with Cons.prems obtain b' where "Cut cs sep = Some (b', a)" "b = c # b'"
      by (auto split: option.splits)
    with Cons.IH show ?thesis by simp
  qed
qed

text \<open>
  \<open>strings.Split(s, sep)\<close>: all the parts between non-overlapping separators, found from
  the left. With an empty separator Go splits after each character.
\<close>

function Split :: "string \<Rightarrow> string \<Rightarrow> string list" where
  "Split s sep =
     (if sep = [] then map (\<lambda>c. [c]) s
      else (case Cut s sep of None \<Rightarrow> [s] | Some (b, a) \<Rightarrow> b # Split a sep))"
  by pat_completeness auto
termination
proof (relation "measure (\<lambda>(s, sep). length s)")
  show "wf (measure (\<lambda>(s, sep). length s))" by simp
next
  fix s sep :: string and x2 :: "string \<times> string" and b a :: string
  assume "sep \<noteq> []" "Cut s sep = Some x2" "(b, a) = x2"
  then have "length s = length b + length sep + length a"
    using Cut_length by metis
  with \<open>sep \<noteq> []\<close> show "((a, sep), (s, sep)) \<in> measure (\<lambda>(s, sep). length s)"
    by (cases sep) auto
qed

declare Split.simps [simp del]

text \<open>\<open>strings.Count(s, sub)\<close> for a separator of one byte.\<close>

definition CountByte :: "string \<Rightarrow> char \<Rightarrow> nat" where
  "CountByte s c = length (filter (\<lambda>d. d = c) s)"

text \<open>\<open>hex.EncodeToString\<close>: two lower-case digits for each byte.\<close>

definition hextable :: string where
  "hextable = ''0123456789abcdef''"

definition EncodeToString :: "byte list \<Rightarrow> string" where
  "EncodeToString bs =
     concat (map (\<lambda>b. [hextable ! unat (drop_bit 4 b), hextable ! unat (b AND 0x0f)]) bs)"

text \<open>\<open>strconv.Itoa\<close> and \<open>strconv.FormatBool\<close>.\<close>

definition digitChar :: "nat \<Rightarrow> char" where
  "digitChar d = char_of (48 + d)"

function natDigits :: "nat \<Rightarrow> string" where
  "natDigits n = (if n < 10 then [digitChar n] else natDigits (n div 10) @ [digitChar (n mod 10)])"
  by pat_completeness auto
termination
  by (relation "measure (\<lambda>n. n)") auto

declare natDigits.simps [simp del]

definition Itoa :: "int \<Rightarrow> string" where
  "Itoa i = (if i < 0 then CHR ''-'' # natDigits (nat (- i)) else natDigits (nat i))"

definition FormatBool :: "bool \<Rightarrow> string" where
  "FormatBool b = (if b then ''true'' else ''false'')"

section \<open>Data model\<close>

text \<open>
  A \<open>float64\<close> is a rational, an infinity or a NaN; the order is that of IEEE 754, in which
  a NaN compares false with everything. Reading a text as a number is the library's
  \<open>strconv.ParseFloat\<close>, a parameter of the host.
\<close>

datatype float64 = Finite rat | PosInf | NegInf | NaN

fun f_lt :: "float64 \<Rightarrow> float64 \<Rightarrow> bool" where
  "f_lt NaN _ = False"
| "f_lt _ NaN = False"
| "f_lt (Finite a) (Finite b) = (a < b)"
| "f_lt (Finite a) PosInf = True"
| "f_lt (Finite a) NegInf = False"
| "f_lt PosInf _ = False"
| "f_lt NegInf NegInf = False"
| "f_lt NegInf _ = True"

fun f_le :: "float64 \<Rightarrow> float64 \<Rightarrow> bool" where
  "f_le NaN _ = False"
| "f_le _ NaN = False"
| "f_le a b = (a = b \<or> f_lt a b)"

text \<open>The values of a \<open>map[string]interface{}\<close> decoded from YAML.\<close>

datatype pvalue =
    PNull
  | PStr string
  | PBool bool
  | PInt int
  | PFloat float64
  | PList "pvalue list"
  | PMap "(string \<times> pvalue) list"

type_synonym params = "(string \<times> pvalue) list"

record ResultDefinition =
  rd_Label :: string
  rd_Type :: string
  rd_Extract :: string

datatype Task = Task
  (t_Name: string)
  (t_ID: string)
  (t_Platform: string)
  (t_When: string)
  (t_Action: string)
  (t_Params: params)
  (t_Register: string)
  (t_Result: "ResultDefinition option")
  (t_IgnoreErrors: bool)
  (t_Retries: "64 word")
  (t_RetryDelay: "64 word")
  (t_Notify: "string list")
  (t_Rollback: "Task option")

record ErrorHandler =
  eh_Strategy :: string
  eh_NotifyServer :: bool
  eh_Message :: string

record CompletionHandler =
  ch_RebootPrompt :: bool
  ch_Message :: string

record Playbook =
  pb_Version :: string
  pb_Name :: string
  pb_Description :: string
  pb_Author :: string
  pb_Platforms :: "string list"
  pb_MinAgentVersion :: string
  pb_RequiresReboot :: bool
  pb_RequiresAdmin :: bool
  pb_Variables :: "(string \<times> string) list"
  pb_Tasks :: "Task list"
  pb_Handlers :: "Task list"
  pb_OnError :: "ErrorHandler option"
  pb_OnComplete :: "CompletionHandler option"

record SignedPlaybook =
  sp_Content :: string
  sp_SHA256Hash :: string
  sp_Signature :: "byte list"
  sp_Status :: string
  sp_PlaybookID :: string
  sp_ApprovedBy :: string

datatype TaskStatus =
  TaskStatusPending | TaskStatusRunning | TaskStatusCompleted | TaskStatusFailed
  | TaskStatusSkipped

fun statusString :: "TaskStatus \<Rightarrow> string" where
  "statusString TaskStatusPending = ''pending''"
| "statusString TaskStatusRunning = ''running''"
| "statusString TaskStatusCompleted = ''completed''"
| "statusString TaskStatusFailed = ''failed''"
| "statusString TaskStatusSkipped = ''skipped''"

record TaskResult =
  tr_TaskName :: string
  tr_TaskID :: string
  tr_Status :: TaskStatus
  tr_Changed :: bool
  tr_Stdout :: string
  tr_Stderr :: string
  tr_ExitCode :: int
  tr_Error :: string
  tr_Message :: string
  tr_ResultMeta :: "ResultDefinition option"

record VerificationRecord =
  vr_ExpectedHash :: string
  vr_CalculatedHash :: string
  vr_HashVerified :: bool
  vr_SignatureVerified :: bool
  vr_ApprovalStatus :: string
  vr_ApprovalVerified :: bool
  vr_AllChecksPass :: bool
  vr_FailureReason :: string

record ExecutionReport =
  rep_PlaybookID :: string
  rep_PlaybookName :: string
  rep_DeviceID :: string
  rep_Verification :: VerificationRecord
  rep_Status :: string
  rep_TasksTotal :: int
  rep_TasksCompleted :: int
  rep_TasksFailed :: int
  rep_TasksSkipped :: int
  rep_TaskResults :: "TaskResult list"
  rep_ErrorMessage :: string
  rep_RebootRequired :: bool

text \<open>
  Time stamps and durations (\<open>StartTime\<close>, \<open>EndTime\<close>, \<open>Duration\<close>, \<open>VerifiedAt\<close>,
  \<open>ApprovedAt\<close>) are read from the clock and never tested by the engine; the records
  above leave them out.
\<close>

definition SchemaVersion :: string where "SchemaVersion = ''1.0''"

definition StatusApproved :: string where "StatusApproved = ''approved''"
definition StatusTest :: string where "StatusTest = ''test''"

definition PlatformWindows :: string where "PlatformWindows = ''windows''"
definition PlatformLinux :: string where "PlatformLinux = ''linux''"
definition PlatformDarwin :: string where "PlatformDarwin = ''darwin''"
definition PlatformAndroid :: string where "PlatformAndroid = ''android''"

definition ActionCommand :: string where "ActionCommand = ''command''"
definition ActionFile :: string where "ActionFile = ''file''"
definition ActionLineinfile :: string where "ActionLineinfile = ''lineinfile''"
definition ActionEnv :: string where "ActionEnv = ''env''"
definition ActionService :: string where "ActionService = ''service''"
definition ActionRegistry :: string where "ActionRegistry = ''registry''"
definition ActionSysctl :: string where "ActionSysctl = ''sysctl''"
definition ActionDefaults :: string where "ActionDefaults = ''defaults''"
definition ActionSettings :: string where "ActionSettings = ''settings''"
definition ActionPackage :: string where "ActionPackage = ''package''"

section \<open>The host\<close>

text \<open>
  What the engine takes from the Go runtime and its libraries: the operating system's
  name and architecture, the process environment (\<open>os.Getenv\<close> gives the empty string
  for an unset name), the host name, directories, \<open>filepath.Join\<close>,
  \<open>strconv.ParseFloat\<close>, \<open>sha256.Sum256\<close>, \<open>ed25519.Verify\<close> with its arguments in
  Go's order (key, message, signature), \<open>yaml.Unmarshal\<close> into a \<open>Playbook\<close>
  (the library's error text when the text is not YAML of that shape), and
  \<open>strings.Map(unicode.ToLower, s)\<close>, the lower-case form of a text by the Unicode
  tables.
\<close>

record host =
  GOOS :: string
  GOARCH :: string
  Getenv :: "string \<Rightarrow> string"
  Hostname :: "string option"
  TempDir :: string
  Separator :: string
  Join :: "string list \<Rightarrow> string"
  ParseFloat :: "string \<Rightarrow> float64 option"
  Sum256 :: "string \<Rightarrow> byte list"
  ed25519_Verify :: "byte list \<Rightarrow> byte list \<Rightarrow> byte list \<Rightarrow> bool"
  Unmarshal :: "string \<Rightarrow> string + Playbook"
  Map_ToLower :: "string \<Rightarrow> string"

text \<open>
  \<open>strings.ToLower\<close>: a text of ASCII bytes only has its letters \<open>A\<close>..\<open>Z\<close> replaced
  byte by byte; any other text is mapped rune by rune with \<open>unicode.ToLower\<close>.
\<close>

definition ToLower :: "host \<Rightarrow> string \<Rightarrow> string" where
  "ToLower h s =
     (if list_all (\<lambda>c. (of_char c :: nat) < 128) s then map toLowerByte s
      else Map_ToLower h s)"

section \<open>Verifier\<close>

datatype verify_error =
  ErrHashMismatch | ErrInvalidSignature | ErrNotApproved | ErrEmptyContent
  | ErrMissingHash | ErrMissingSignature | ErrInvalidPublicKey

definition PublicKeySize :: nat where "PublicKeySize = 32"

text \<open>\<open>NewVerifier\<close>: the verifier is its pinned key, accepted only at the right length.\<close>

definition NewVerifier :: "byte list \<Rightarrow> verify_error + byte list" where
  "NewVerifier publicKey =
     (if length publicKey \<noteq> PublicKeySize then Inl ErrInvalidPublicKey else Inr publicKey)"

definition Verify :: "host \<Rightarrow> byte list \<Rightarrow> SignedPlaybook \<Rightarrow> VerificationRecord \<times> verify_error option" where
  "Verify h serverPublicKey sp =
     (let record0 = \<lparr>vr_ExpectedHash = sp_SHA256Hash sp, vr_CalculatedHash = [],
                      vr_HashVerified = False, vr_SignatureVerified = False,
                      vr_ApprovalStatus = sp_Status sp, vr_ApprovalVerified = False,
                      vr_AllChecksPass = False, vr_FailureReason = []\<rparr>
      in
      if sp_Content sp = [] then
        (record0\<lparr>vr_FailureReason := ''empty playbook content''\<rparr>, Some ErrEmptyContent)
      else if sp_SHA256Hash sp = [] then
        (record0\<lparr>vr_FailureReason := ''missing playbook hash''\<rparr>, Some ErrMissingHash)
      else if length (sp_Signature sp) = 0 then
        (record0\<lparr>vr_FailureReason := ''missing playbook signature''\<rparr>, Some ErrMissingSignature)
      else
        let hashBytes = Sum256 h (sp_Content sp);
            calculatedHash = EncodeToString hashBytes;
            record1 = record0\<lparr>vr_CalculatedHash := calculatedHash\<rparr>
        in
        if calculatedHash \<noteq> sp_SHA256Hash sp then
          (record1\<lparr>vr_HashVerified := False,
                    vr_FailureReason := ''hash mismatch: expected '' @ sp_SHA256Hash sp
                                        @ '', got '' @ calculatedHash\<rparr>,
           Some ErrHashMismatch)
        else
          let record2 = record1\<lparr>vr_HashVerified := True\<rparr> in
          if \<not> ed25519_Verify h serverPublicKey hashBytes (sp_Signature sp) then
            (record2\<lparr>vr_SignatureVerified := False,
                      vr_FailureReason := ''signature verification failed''\<rparr>,
             Some ErrInvalidSignature)
          else
            let record3 = record2\<lparr>vr_SignatureVerified := True\<rparr> in
            if sp_Status sp \<noteq> StatusApproved \<and> sp_Status sp \<noteq> StatusTest then
              (record3\<lparr>vr_ApprovalVerified := False,
                        vr_FailureReason := ''playbook status is '' @ [CHR 0x27] @ sp_Status sp
                                            @ [CHR 0x27] @ '', expected ''
                                            @ [CHR 0x27] @ ''approved'' @ [CHR 0x27] @ '' or ''
                                            @ [CHR 0x27] @ ''test'' @ [CHR 0x27]\<rparr>,
               Some ErrNotApproved)
            else
              (record3\<lparr>vr_ApprovalVerified := True, vr_AllChecksPass := True\<rparr>, None))"

section \<open>Parser and schema validator\<close>

datatype parse_error =
    ParseError string
  | ValidationError string string

text \<open>The \<open>Error()\<close> text of a parser error (no line number is ever recorded).\<close>

fun parseErrorText :: "parse_error \<Rightarrow> string" where
  "parseErrorText (ParseError msg) = ''parse error: '' @ msg"
| "parseErrorText (ValidationError field msg) =
     ''validation error in '' @ [CHR 0x27] @ field @ [CHR 0x27] @ '': '' @ msg"

text \<open>\<open>NewParser\<close>: the parser is the platform name it validates against.\<close>

definition NewParser :: "host \<Rightarrow> string" where
  "NewParser h =
     (let platform = GOOS h in
      if platform = ''windows'' \<or> platform = ''linux'' \<or> platform = ''darwin'' then platform
      else if Contains platform ''android'' then PlatformAndroid
      else platform)"

definition isSupportedVersion :: "string \<Rightarrow> bool" where
  "isSupportedVersion version =
     (version = SchemaVersion \<or> version = ''1'' \<or> version = ''1.0'')"

definition isValidPlatform :: "string \<Rightarrow> bool" where
  "isValidPlatform platform =
     (platform = PlatformWindows \<or> platform = PlatformLinux \<or> platform = PlatformDarwin
      \<or> platform = PlatformAndroid)"

fun isPlatformSupported :: "string \<Rightarrow> string list \<Rightarrow> bool" where
  "isPlatformSupported p [] = False"
| "isPlatformSupported p (plat # platforms) =
     (if plat = p then True else isPlatformSupported p platforms)"

definition isValidAction :: "string \<Rightarrow> bool" where
  "isValidAction action =
     (action = ActionCommand \<or> action = ActionFile \<or> action = ActionLineinfile
      \<or> action = ActionEnv \<or> action = ActionService \<or> action = ActionRegistry
      \<or> action = ActionSysctl \<or> action = ActionDefaults \<or> action = ActionSettings
      \<or> action = ActionPackage)"

definition validateActionPlatform :: "string \<Rightarrow> string \<Rightarrow> string \<Rightarrow> string option" where
  "validateActionPlatform p action taskPlatform =
     (let platform = (if taskPlatform = [] then p else taskPlatform) in
      if action = ActionRegistry then
        (if platform \<noteq> PlatformWindows then Some ''registry action is only available on Windows''
         else None)
      else if action = ActionSysctl then
        (if platform \<noteq> PlatformLinux then Some ''sysctl action is only available on Linux''
         else None)
      else if action = ActionDefaults then
        (if platform \<noteq> PlatformDarwin then Some ''defaults action is only available on macOS''
         else None)
      else if action = ActionSettings \<or> action = ActionPackage then
        (if platform \<noteq> PlatformAndroid then Some (action @ '' action is only available on Android'')
         else None)
      else None)"

definition hasKey :: "params \<Rightarrow> string \<Rightarrow> bool" where
  "hasKey ps k = (map_of ps k \<noteq> None)"

definition requireParam :: "params \<Rightarrow> string \<Rightarrow> string \<Rightarrow> string \<Rightarrow> parse_error option" where
  "requireParam ps fieldPrefix action k =
     (if \<not> hasKey ps k then
        Some (ValidationError (fieldPrefix @ ''.params.'' @ k)
               (action @ '' action requires '' @ [CHR 0x27] @ k @ [CHR 0x27] @ '' parameter''))
      else None)"

definition validateActionParams :: "string \<Rightarrow> params \<Rightarrow> string \<Rightarrow> parse_error option" where
  "validateActionParams action ps fieldPrefix =
     (if action = ActionCommand then requireParam ps fieldPrefix action ''command''
      else if action = ActionFile then requireParam ps fieldPrefix action ''path''
      else if action = ActionRegistry then requireParam ps fieldPrefix action ''path''
      else if action = ActionSysctl then requireParam ps fieldPrefix action ''name''
      else if action = ActionDefaults then
        (case requireParam ps fieldPrefix action ''domain'' of
           Some e \<Rightarrow> Some e
         | None \<Rightarrow> requireParam ps fieldPrefix action ''key'')
      else if action = ActionSettings then
        (case requireParam ps fieldPrefix action ''namespace'' of
           Some e \<Rightarrow> Some e
         | None \<Rightarrow> requireParam ps fieldPrefix action ''key'')
      else if action = ActionEnv then requireParam ps fieldPrefix action ''name''
      else if action = ActionService then requireParam ps fieldPrefix action ''name''
      else if action = ActionLineinfile then requireParam ps fieldPrefix action ''path''
      else if action = ActionPackage then requireParam ps fieldPrefix action ''name''
      else None)"

definition validateTask :: "string \<Rightarrow> Task \<Rightarrow> nat \<Rightarrow> parse_error option" where
  "validateTask p task index =
     (let fieldPrefix = ''tasks['' @ Itoa (int index) @ '']'' in
      if t_Name task = [] then
        Some (ValidationError (fieldPrefix @ ''.name'') ''task name is required'')
      else if t_Action task = [] then
        Some (ValidationError (fieldPrefix @ ''.action'') ''task action is required'')
      else if \<not> isValidAction (t_Action task) then
        Some (ValidationError (fieldPrefix @ ''.action'')
               (''unknown action '' @ [CHR 0x27] @ t_Action task @ [CHR 0x27]))
      else
        (case validateActionPlatform p (t_Action task) (t_Platform task) of
           Some msg \<Rightarrow> Some (ValidationError (fieldPrefix @ ''.action'') msg)
         | None \<Rightarrow>
            (case validateActionParams (t_Action task) (t_Params task) fieldPrefix of
               Some e \<Rightarrow> Some e
             | None \<Rightarrow>
                if sint (t_Retries task) < 0 then
                  Some (ValidationError (fieldPrefix @ ''.retries'') ''retries cannot be negative'')
                else if sint (t_RetryDelay task) < 0 then
                  Some (ValidationError (fieldPrefix @ ''.retry_delay'')
                         ''retry_delay cannot be negative'')
                else None)))"

fun validateTasks :: "string \<Rightarrow> Task list \<Rightarrow> nat \<Rightarrow> parse_error option" where
  "validateTasks p [] i = None"
| "validateTasks p (task # tasks) i =
     (case validateTask p task i of
        Some e \<Rightarrow> Some e
      | None \<Rightarrow> validateTasks p tasks (Suc i))"

fun validateHandlers :: "string \<Rightarrow> Task list \<Rightarrow> nat \<Rightarrow> parse_error option" where
  "validateHandlers p [] i = None"
| "validateHandlers p (handler # handlers) i =
     (case validateTask p handler i of
        Some e \<Rightarrow> Some (ValidationError (''handlers['' @ Itoa (int i) @ '']'') (parseErrorText e))
      | None \<Rightarrow> validateHandlers p handlers (Suc i))"

fun firstInvalidPlatform :: "string list \<Rightarrow> string option" where
  "firstInvalidPlatform [] = None"
| "firstInvalidPlatform (plat # platforms) =
     (if \<not> isValidPlatform plat then Some plat else firstInvalidPlatform platforms)"

text \<open>
  \<open>Validate\<close> writes the default version into the playbook it is given; the model returns
  the playbook with it.
\<close>

definition Validate :: "string \<Rightarrow> Playbook \<Rightarrow> parse_error + Playbook" where
  "Validate p pb0 =
     (let pb = (if pb_Version pb0 = [] then pb0\<lparr>pb_Version := SchemaVersion\<rparr> else pb0) in
      if \<not> isSupportedVersion (pb_Version pb) then
        Inl (ValidationError ''version''
              (''version '' @ [CHR 0x27] @ pb_Version pb @ [CHR 0x27]
                @ '' is not supported, expected '' @ [CHR 0x27] @ SchemaVersion @ [CHR 0x27]))
      else if pb_Name pb = [] then
        Inl (ValidationError ''name'' ''playbook name is required'')
      else if length (pb_Tasks pb) = 0 then
        Inl (ValidationError ''tasks'' ''playbook must have at least one task'')
      else
        (case (if length (pb_Platforms pb) > 0 then
                 (case firstInvalidPlatform (pb_Platforms pb) of
                    Some plat \<Rightarrow>
                      Some (ValidationError ''platforms''
                             (''invalid platform '' @ [CHR 0x27] @ plat @ [CHR 0x27]))
                  | None \<Rightarrow>
                      if \<not> isPlatformSupported p (pb_Platforms pb) then
                        Some (ValidationError ''platforms''
                               (''playbook does not support platform ''
                                 @ [CHR 0x27] @ p @ [CHR 0x27]))
                      else None)
               else None) of
           Some e \<Rightarrow> Inl e
         | None \<Rightarrow>
            (case validateTasks p (pb_Tasks pb) 0 of
               Some e \<Rightarrow> Inl e
             | None \<Rightarrow>
                (case validateHandlers p (pb_Handlers pb) 0 of
                   Some e \<Rightarrow> Inl e
                 | None \<Rightarrow> Inr pb))))"

definition Parse :: "host \<Rightarrow> string \<Rightarrow> string \<Rightarrow> parse_error + Playbook" where
  "Parse h p content =
     (case Unmarshal h content of
        Inl yamlErr \<Rightarrow> Inl (ParseError (''YAML parse failed: '' @ yamlErr))
      | Inr pb \<Rightarrow> Validate p pb)"

section \<open>Variable resolver\<close>

record Variables =
  userVars :: "string \<rightharpoonup> string"
  taskResults :: "string \<rightharpoonup> TaskResult"
  builtins :: "string \<rightharpoonup> string"

definition getUserHome :: "host \<Rightarrow> string" where
  "getUserHome h =
     (if Getenv h ''HOME'' \<noteq> [] then Getenv h ''HOME''
      else if Getenv h ''USERPROFILE'' \<noteq> [] then Getenv h ''USERPROFILE''
      else [])"

definition getUserConfig :: "host \<Rightarrow> string" where
  "getUserConfig h =
     (if GOOS h = ''windows'' then
        (if Getenv h ''APPDATA'' \<noteq> [] then Getenv h ''APPDATA''
         else Join h [getUserHome h, ''AppData'', ''Roaming''])
      else if GOOS h = ''darwin'' then Join h [getUserHome h, ''Library'', ''Application Support'']
      else
        (if Getenv h ''XDG_CONFIG_HOME'' \<noteq> [] then Getenv h ''XDG_CONFIG_HOME''
         else Join h [getUserHome h, ''.config'']))"

definition getUserCache :: "host \<Rightarrow> string" where
  "getUserCache h =
     (if GOOS h = ''windows'' then
        (if Getenv h ''LOCALAPPDATA'' \<noteq> [] then Join h [Getenv h ''LOCALAPPDATA'', ''cache'']
         else Join h [getUserHome h, ''AppData'', ''Local'', ''cache''])
      else if GOOS h = ''darwin'' then Join h [getUserHome h, ''Library'', ''Caches'']
      else
        (if Getenv h ''XDG_CACHE_HOME'' \<noteq> [] then Getenv h ''XDG_CACHE_HOME''
         else Join h [getUserHome h, ''.cache'']))"

definition getSystemConfig :: "host \<Rightarrow> string" where
  "getSystemConfig h =
     (if GOOS h = ''windows'' then
        (if Getenv h ''ProgramData'' \<noteq> [] then Getenv h ''ProgramData''
         else [CHR ''C'', CHR '':'', CHR 0x5C] @ ''ProgramData'')
      else ''/etc'')"

definition getOSFamily :: "host \<Rightarrow> string" where
  "getOSFamily h =
     (if GOOS h = ''windows'' then ''windows''
      else if GOOS h = ''darwin'' then ''darwin''
      else if GOOS h = ''linux'' then ''linux''
      else if GOOS h = ''android'' then ''android''
      else GOOS h)"

definition initBuiltins :: "host \<Rightarrow> (string \<rightharpoonup> string)" where
  "initBuiltins h =
     (let b0 = [''platform'' \<mapsto> GOOS h, ''arch'' \<mapsto> GOARCH h, ''os_family'' \<mapsto> getOSFamily h];
          b1 = (case Hostname h of Some hostname \<Rightarrow> b0(''hostname'' \<mapsto> hostname) | None \<Rightarrow> b0)
      in b1(''user_home'' \<mapsto> getUserHome h, ''user_config'' \<mapsto> getUserConfig h,
            ''user_cache'' \<mapsto> getUserCache h, ''system_config'' \<mapsto> getSystemConfig h,
            ''temp_dir'' \<mapsto> TempDir h, ''path_sep'' \<mapsto> Separator h))"

definition NewVariables :: "host \<Rightarrow> Variables" where
  "NewVariables h = \<lparr>userVars = Map.empty, taskResults = Map.empty, builtins = initBuiltins h\<rparr>"

text \<open>The character classes of the two patterns; \<open>\s\<close> of Go's regular expressions.\<close>

definition isLetter :: "char \<Rightarrow> bool" where
  "isLetter c = (let n = (of_char c :: nat) in (65 \<le> n \<and> n \<le> 90) \<or> (97 \<le> n \<and> n \<le> 122))"

definition isDigit :: "char \<Rightarrow> bool" where
  "isDigit c = (let n = (of_char c :: nat) in 48 \<le> n \<and> n \<le> 57)"

definition isIdentStart :: "char \<Rightarrow> bool" where
  "isIdentStart c = (isLetter c \<or> c = CHR ''_'')"

definition isIdentChar :: "char \<Rightarrow> bool" where
  "isIdentChar c = (isLetter c \<or> isDigit c \<or> c = CHR ''_'')"

definition isVarChar :: "char \<Rightarrow> bool" where
  "isVarChar c = (isIdentChar c \<or> c = CHR ''.'')"

definition isReSpace :: "char \<Rightarrow> bool" where
  "isReSpace c = (c = CHR 0x09 \<or> c = CHR 0x0A \<or> c = CHR 0x0C \<or> c = CHR 0x0D \<or> c = CHR '' '')"

text \<open>
  \<open>envPattern\<close>, \<open>\$\{([a-zA-Z_][a-zA-Z0-9_]*)\}\<close>, matched at the head of a text: the
  name and the text after the match. The classes of neighbouring pieces are disjoint, so
  the longest name is the only candidate.
\<close>

definition matchEnv :: "string \<Rightarrow> (string \<times> string) option" where
  "matchEnv s =
     (case s of
        d # b # c # cs \<Rightarrow>
          if d = CHR ''$'' \<and> b = CHR ''{'' \<and> isIdentStart c then
            (case dropWhile isIdentChar cs of
               e # rest \<Rightarrow> if e = CHR ''}'' then Some (c # takeWhile isIdentChar cs, rest) else None
             | [] \<Rightarrow> None)
          else None
      | _ \<Rightarrow> None)"

text \<open>
  \<open>varPattern\<close>, \<open>\{\{\s*([a-zA-Z_][a-zA-Z0-9_\.]*)\s*\}\}\<close>, matched at the head of a
  text: the name and the text after the match.
\<close>

definition matchVar :: "string \<Rightarrow> (string \<times> string) option" where
  "matchVar s =
     (case s of
        a # b # r \<Rightarrow>
          if a = CHR ''{'' \<and> b = CHR ''{'' then
            (case dropWhile isReSpace r of
               c # cs \<Rightarrow>
                 if isIdentStart c then
                   (case dropWhile isReSpace (dropWhile isVarChar cs) of
                      e # f # rest \<Rightarrow>
                        if e = CHR ''}'' \<and> f = CHR ''}'' then Some (c # takeWhile isVarChar cs, rest)
                        else None
                    | _ \<Rightarrow> None)
                 else None
             | [] \<Rightarrow> None)
          else None
      | _ \<Rightarrow> None)"

lemma length_dropWhile_le': "length (dropWhile P xs) \<le> length xs"
  by (induction xs) auto

lemma matchEnv_shorter: "matchEnv s = Some (name, rest) \<Longrightarrow> length rest < length s"
proof -
  assume m: "matchEnv s = Some (name, rest)"
  then obtain d b c cs where s: "s = d # b # c # cs"
    unfolding matchEnv_def by (auto split: list.splits)
  from m s obtain e where "dropWhile isIdentChar cs = e # rest"
    unfolding matchEnv_def by (auto split: list.splits if_splits)
  then have "length rest < length (dropWhile isIdentChar cs)" by simp
  also have "\<dots> \<le> length cs" by (rule length_dropWhile_le')
  finally show ?thesis using s by simp
qed

lemma matchVar_shorter: "matchVar s = Some (name, rest) \<Longrightarrow> length rest < length s"
proof -
  assume m: "matchVar s = Some (name, rest)"
  then obtain a b r where s: "s = a # b # r"
    unfolding matchVar_def by (auto split: list.splits)
  from m s obtain c cs where r: "dropWhile isReSpace r = c # cs"
    unfolding matchVar_def by (auto split: list.splits if_splits)
  from m s r obtain e f where d: "dropWhile isReSpace (dropWhile isVarChar cs) = e # f # rest"
    unfolding matchVar_def by (auto split: list.splits if_splits)
  have "length rest < length (dropWhile isReSpace (dropWhile isVarChar cs))"
    using d by simp
  also have "\<dots> \<le> length (dropWhile isVarChar cs)" by (rule length_dropWhile_le')
  also have "\<dots> \<le> length cs" by (rule length_dropWhile_le')
  also have "\<dots> < length (dropWhile isReSpace r)" using r by simp
  also have "\<dots> \<le> length r" by (rule length_dropWhile_le')
  finally show ?thesis using s by simp
qed

text \<open>
  \<open>ReplaceAllStringFunc\<close> for \<open>envPattern\<close>: matches are found from the left and do not
  overlap; the function gets the matched text and, as \<open>FindStringSubmatch\<close> gives it, the
  name.
\<close>

function replaceAllEnv :: "(string \<Rightarrow> string \<Rightarrow> string) \<Rightarrow> string \<Rightarrow> string" where
  "replaceAllEnv f [] = []"
| "replaceAllEnv f (c # cs) =
     (case matchEnv (c # cs) of
        Some (name, rest) \<Rightarrow>
          f (take (length (c # cs) - length rest) (c # cs)) name @ replaceAllEnv f rest
      | None \<Rightarrow> c # replaceAllEnv f cs)"
  by pat_completeness auto
termination
  by (relation "measure (\<lambda>(f, s). length s)") (auto dest: matchEnv_shorter)

definition resolveEnvVars :: "host \<Rightarrow> string \<Rightarrow> string" where
  "resolveEnvVars h input =
     replaceAllEnv (\<lambda>match envName. if Getenv h envName \<noteq> [] then Getenv h envName else match) input"

text \<open>
  The same for \<open>varPattern\<close>, with a function that also updates a value of its own: the
  closure in \<open>Substitute\<close> assigns to \<open>lastErr\<close>.
\<close>

function replaceAllVar :: "(string \<Rightarrow> string \<Rightarrow> 'e \<Rightarrow> string \<times> 'e) \<Rightarrow> string \<Rightarrow> 'e \<Rightarrow> string \<times> 'e" where
  "replaceAllVar f [] st = ([], st)"
| "replaceAllVar f (c # cs) st =
     (case matchVar (c # cs) of
        Some (name, rest) \<Rightarrow>
          (case f (take (length (c # cs) - length rest) (c # cs)) name st of
             (out, st') \<Rightarrow> (case replaceAllVar f rest st' of (outs, st'') \<Rightarrow> (out @ outs, st'')))
      | None \<Rightarrow> (case replaceAllVar f cs st of (outs, st') \<Rightarrow> (c # outs, st')))"
  by pat_completeness auto
termination
  by (relation "measure (\<lambda>(f, s, st). length s)") (auto dest: matchVar_shorter)

fun SetUserVars :: "host \<Rightarrow> Variables \<Rightarrow> (string \<times> string) list \<Rightarrow> Variables" where
  "SetUserVars h v [] = v"
| "SetUserVars h v ((key, val) # vars) =
     SetUserVars h (v\<lparr>userVars := (userVars v)(key \<mapsto> resolveEnvVars h val)\<rparr>) vars"

definition SetTaskResult :: "Variables \<Rightarrow> string \<Rightarrow> TaskResult \<Rightarrow> Variables" where
  "SetTaskResult v name result = v\<lparr>taskResults := (taskResults v)(name \<mapsto> result)\<rparr>"

definition Get :: "Variables \<Rightarrow> string \<Rightarrow> string option" where
  "Get v name =
     (case userVars v name of
        Some val \<Rightarrow> Some val
      | None \<Rightarrow> (case builtins v name of Some val \<Rightarrow> Some val | None \<Rightarrow> None))"

definition GetTaskResult :: "Variables \<Rightarrow> string \<Rightarrow> TaskResult option" where
  "GetTaskResult v name = taskResults v name"

datatype var_error =
    UnknownProperty string
  | VariableNotFound string

fun varErrorText :: "var_error \<Rightarrow> string" where
  "varErrorText (UnknownProperty property) =
     ''unknown property '' @ [CHR 0x27] @ property @ [CHR 0x27]"
| "varErrorText (VariableNotFound name) =
     ''variable '' @ [CHR 0x27] @ ''{{ '' @ name @ '' }}'' @ [CHR 0x27]
       @ '' error: variable not found''"

definition getTaskResultProperty :: "TaskResult \<Rightarrow> string \<Rightarrow> var_error + string" where
  "getTaskResultProperty result property =
     (if property = ''stdout'' then Inr (tr_Stdout result)
      else if property = ''stderr'' then Inr (tr_Stderr result)
      else if property = ''exit_code'' then Inr (Itoa (tr_ExitCode result))
      else if property = ''status'' then Inr (statusString (tr_Status result))
      else if property = ''changed'' then Inr (FormatBool (tr_Changed result))
      else Inl (UnknownProperty property))"

text \<open>
  The closure of \<open>Substitute\<close>. A name with a dot is split at the first dot, as
  \<open>SplitN(varName, ".", 2)\<close> does.
\<close>

definition substituteMatch :: "host \<Rightarrow> Variables \<Rightarrow> string \<Rightarrow> string \<Rightarrow> var_error option \<Rightarrow> string \<times> var_error option" where
  "substituteMatch h v match varName lastErr =
     (if HasPrefix varName ''env.'' then
        (let envName = TrimPrefix varName ''env.'' in
         if Getenv h envName \<noteq> [] then (Getenv h envName, lastErr) else (match, lastErr))
      else
        (case (if Contains varName ''.'' then
                 (case Cut varName ''.'' of
                    Some (taskName, property) \<Rightarrow>
                      (case taskResults v taskName of
                         Some result \<Rightarrow> Some (getTaskResultProperty result property)
                       | None \<Rightarrow> None)
                  | None \<Rightarrow> None)
               else None) of
           Some (Inr val) \<Rightarrow> (val, lastErr)
         | Some (Inl err) \<Rightarrow> (match, Some err)
         | None \<Rightarrow>
            (case Get v varName of
               Some val \<Rightarrow> (val, lastErr)
             | None \<Rightarrow> (match, Some (VariableNotFound varName)))))"

definition Substitute :: "host \<Rightarrow> Variables \<Rightarrow> string \<Rightarrow> string \<times> var_error option" where
  "Substitute h v input = replaceAllVar (substituteMatch h v) (resolveEnvVars h input) None"

text \<open>
  \<open>SubstituteMap\<close> and \<open>substituteSlice\<close>. Go ranges over a map in no fixed order and
  returns at the first error; the model walks the entries in the order of the list, which
  decides only which of several errors is reported.
\<close>

function SubstituteMap :: "host \<Rightarrow> Variables \<Rightarrow> (string \<times> pvalue) list \<Rightarrow> var_error + (string \<times> pvalue) list"
  and substituteSlice :: "host \<Rightarrow> Variables \<Rightarrow> pvalue list \<Rightarrow> var_error + pvalue list" where
  "SubstituteMap h v [] = Inr []"
| "SubstituteMap h v ((key, val) # ps) =
     (case (case val of
              PStr s \<Rightarrow>
                (case Substitute h v s of
                   (resolved, Some err) \<Rightarrow> Inl err
                 | (resolved, None) \<Rightarrow> Inr (PStr resolved))
            | PMap m \<Rightarrow>
                (case SubstituteMap h v m of Inl err \<Rightarrow> Inl err | Inr resolved \<Rightarrow> Inr (PMap resolved))
            | PList l \<Rightarrow>
                (case substituteSlice h v l of Inl err \<Rightarrow> Inl err | Inr resolved \<Rightarrow> Inr (PList resolved))
            | _ \<Rightarrow> Inr val) of
        Inl err \<Rightarrow> Inl err
      | Inr val' \<Rightarrow>
         (case SubstituteMap h v ps of
            Inl err \<Rightarrow> Inl err
          | Inr rest \<Rightarrow> Inr ((key, val') # rest)))"
| "substituteSlice h v [] = Inr []"
| "substituteSlice h v (item # items) =
     (case (case item of
              PStr s \<Rightarrow>
                (case Substitute h v s of
                   (resolved, Some err) \<Rightarrow> Inl err
                 | (resolved, None) \<Rightarrow> Inr (PStr resolved))
            | PMap m \<Rightarrow>
                (case SubstituteMap h v m of Inl err \<Rightarrow> Inl err | Inr resolved \<Rightarrow> Inr (PMap resolved))
            | _ \<Rightarrow> Inr item) of
        Inl err \<Rightarrow> Inl err
      | Inr item' \<Rightarrow>
         (case substituteSlice h v items of
            Inl err \<Rightarrow> Inl err
          | Inr rest \<Rightarrow> Inr (item' # rest)))"
  by pat_completeness auto
termination
  by (relation "measure (\<lambda>x. case x of
         Inl (h, v, ps) \<Rightarrow> size_list (size_prod (\<lambda>_. 0) size) ps
       | Inr (h, v, items) \<Rightarrow> size_list size items)") auto

section \<open>Condition evaluator\<close>

text \<open>
  An evaluation ends with a truth value, with an error, or in a run-time panic: slicing
  the quotes off an operand that is one quote character long is out of range.
\<close>

datatype eval_error =
    EvalError string
  | EvalPanic

definition isTruthy :: "host \<Rightarrow> string \<Rightarrow> bool" where
  "isTruthy h val0 =
     (let val = TrimSpace (ToLower h val0) in
      if val = [] \<or> val = ''false'' \<or> val = ''0'' \<or> val = ''no'' \<or> val = ''off''
         \<or> val = ''null'' \<or> val = ''nil'' \<or> val = ''none''
      then False else True)"

definition isQuoted :: "string \<Rightarrow> bool" where
  "isQuoted ref =
     ((HasPrefix ref [CHR 0x22] \<and> HasSuffix ref [CHR 0x22])
      \<or> (HasPrefix ref [CHR 0x27] \<and> HasSuffix ref [CHR 0x27]))"

definition resolveValue :: "host \<Rightarrow> Variables \<Rightarrow> string \<Rightarrow> eval_error + string" where
  "resolveValue h v ref0 =
     (let ref = TrimSpace ref0 in
      if isQuoted ref then
        (if length ref < 2 then Inl EvalPanic
         else Inr (take (length ref - 2) (drop 1 ref)))
      else if ParseFloat h ref \<noteq> None then Inr ref
      else if ref = ''platform'' then Inr (GOOS h)
      else if ref = ''arch'' then Inr (GOARCH h)
      else if HasPrefix ref ''env.'' then
        (let envName = TrimPrefix ref ''env.'' in
         case Get v (''env.'' @ envName) of
           Some val \<Rightarrow> Inr val
         | None \<Rightarrow>
            (let val = fst (Substitute h v (''{{ env.'' @ envName @ '' }}'')) in
             if val \<noteq> ''{{ env.'' @ envName @ '' }}'' then Inr val else Inr []))
      else
        (case (if Contains ref ''.'' then
                 (case Cut ref ''.'' of
                    Some (taskName, property) \<Rightarrow>
                      (case GetTaskResult v taskName of
                         Some result \<Rightarrow>
                           Some (if property = ''stdout'' then Inr (tr_Stdout result)
                                 else if property = ''stderr'' then Inr (tr_Stderr result)
                                 else if property = ''exit_code'' then Inr (Itoa (tr_ExitCode result))
                                 else if property = ''status'' then Inr (statusString (tr_Status result))
                                 else if property = ''changed'' then Inr (FormatBool (tr_Changed result))
                                 else Inl (EvalError (''unknown task result property: '' @ property)))
                       | None \<Rightarrow> None)
                  | None \<Rightarrow> None)
               else None) of
           Some r \<Rightarrow> r
         | None \<Rightarrow>
            (case Get v ref of
               Some val \<Rightarrow> Inr val
             | None \<Rightarrow> Inr [])))"

text \<open>Both operands of an operator, the left one first.\<close>

definition resolveBoth :: "host \<Rightarrow> Variables \<Rightarrow> string \<Rightarrow> string \<Rightarrow> eval_error + (string \<times> string)" where
  "resolveBoth h v l r =
     (case resolveValue h v (TrimSpace l) of
        Inl err \<Rightarrow> Inl err
      | Inr left \<Rightarrow>
         (case resolveValue h v (TrimSpace r) of
            Inl err \<Rightarrow> Inl err
          | Inr right \<Rightarrow> Inr (left, right)))"

definition compareStrings :: "host \<Rightarrow> Variables \<Rightarrow> string \<Rightarrow> string \<Rightarrow> (string \<Rightarrow> string \<Rightarrow> bool) \<Rightarrow> (eval_error + bool) option" where
  "compareStrings h v expression op test =
     (if Contains expression op then
        (case Cut expression op of
           Some (l, r) \<Rightarrow>
             Some (case resolveBoth h v l r of
                     Inl err \<Rightarrow> Inl err
                   | Inr (left, right) \<Rightarrow> Inr (test left right))
         | None \<Rightarrow> None)
      else None)"

definition compareNumbers :: "host \<Rightarrow> Variables \<Rightarrow> string \<Rightarrow> string \<Rightarrow> (eval_error + bool) option" where
  "compareNumbers h v expression op =
     (if Contains expression op then
        (case Cut expression op of
           Some (l, r) \<Rightarrow>
             Some (case resolveBoth h v l r of
                     Inl err \<Rightarrow> Inl err
                   | Inr (leftStr, rightStr) \<Rightarrow>
                      (case (ParseFloat h leftStr, ParseFloat h rightStr) of
                         (Some left, Some right) \<Rightarrow>
                           (if TrimSpace op = ''>='' then Inr (f_le right left)
                            else if TrimSpace op = ''<='' then Inr (f_le left right)
                            else if TrimSpace op = ''>'' then Inr (f_lt right left)
                            else Inr (f_lt left right))
                       | _ \<Rightarrow>
                           Inl (EvalError (''numeric comparison requires numeric values: ''
                                            @ expression))))
         | None \<Rightarrow> None)
      else None)"

fun firstSome :: "'a option list \<Rightarrow> 'a option" where
  "firstSome [] = None"
| "firstSome (Some x # xs) = Some x"
| "firstSome (None # xs) = firstSome xs"

definition evaluateComparison :: "host \<Rightarrow> Variables \<Rightarrow> string \<Rightarrow> eval_error + bool" where
  "evaluateComparison h v expression =
     (case firstSome
             [compareStrings h v expression '' not contains '' (\<lambda>left right. \<not> Contains left right),
              compareStrings h v expression '' contains '' (\<lambda>left right. Contains left right),
              compareStrings h v expression '' != '' (\<lambda>left right. left \<noteq> right),
              compareStrings h v expression '' == '' (\<lambda>left right. left = right),
              compareNumbers h v expression '' >= '',
              compareNumbers h v expression '' <= '',
              compareNumbers h v expression '' > '',
              compareNumbers h v expression '' < ''] of
        Some r \<Rightarrow> r
      | None \<Rightarrow>
         (case resolveValue h v expression of
            Inl err \<Rightarrow> Inl err
          | Inr val \<Rightarrow> Inr (isTruthy h val)))"

fun splitLoop :: "string \<Rightarrow> string list \<Rightarrow> string list \<Rightarrow> string \<Rightarrow> nat \<Rightarrow> string list \<times> string \<times> nat" where
  "splitLoop op [] parts current depth = (parts, current, depth)"
| "splitLoop op (token # tokens) parts current depth =
     (let openCount = CountByte current CHR ''('';
          closeCount = CountByte current CHR '')''
      in
      if openCount > closeCount then
        splitLoop op tokens parts (current @ op @ token) (openCount - closeCount)
      else splitLoop op tokens (parts @ [TrimSpace current]) token 0)"

definition splitOnOperator :: "string \<Rightarrow> string \<Rightarrow> string list" where
  "splitOnOperator expr op =
     (case Split expr op of
        [] \<Rightarrow> []
      | token # tokens \<Rightarrow>
         (case splitLoop op tokens [] token 0 of
            (parts, current, depth) \<Rightarrow>
              (let parts' = (if length current > 0 then parts @ [TrimSpace current] else parts) in
               if length parts' \<le> 1 \<and> depth = 0 then [] else parts')))"

fun andLoop :: "(string \<Rightarrow> eval_error + bool) \<Rightarrow> string list \<Rightarrow> eval_error + bool" where
  "andLoop ev [] = Inr True"
| "andLoop ev (part # parts) =
     (case ev part of
        Inl err \<Rightarrow> Inl err
      | Inr result \<Rightarrow> if \<not> result then Inr False else andLoop ev parts)"

fun orLoop :: "(string \<Rightarrow> eval_error + bool) \<Rightarrow> string list \<Rightarrow> eval_error + bool" where
  "orLoop ev [] = Inr False"
| "orLoop ev (part # parts) =
     (case ev part of
        Inl err \<Rightarrow> Inl err
      | Inr result \<Rightarrow> if result then Inr True else orLoop ev parts)"

lemma andLoop_cong [fundef_cong]:
  "parts = parts' \<Longrightarrow> (\<And>p. p \<in> set parts' \<Longrightarrow> f p = g p) \<Longrightarrow> andLoop f parts = andLoop g parts'"
  by (induction parts arbitrary: parts') (auto split: sum.splits)

lemma orLoop_cong [fundef_cong]:
  "parts = parts' \<Longrightarrow> (\<And>p. p \<in> set parts' \<Longrightarrow> f p = g p) \<Longrightarrow> orLoop f parts = orLoop g parts'"
  by (induction parts arbitrary: parts') (auto split: sum.splits)

lemma length_trimRunes_le: "length (trimRunes rs s) \<le> length s"
proof (induction rs s rule: trimRunes.induct)
  case (1 rs)
  then show ?case by simp
next
  case (2 rs c cs)
  show ?case
  proof (cases "find (HasPrefix (c # cs)) rs")
    case None
    then show ?thesis by simp
  next
    case (Some r)
    from "2.IH" [OF Some] have "length (trimRunes rs (drop (length r - 1) cs)) \<le> length cs"
      by simp
    with Some show ?thesis by simp
  qed
qed

lemma length_TrimSpace_le: "length (TrimSpace s) \<le> length s"
proof -
  have "length (TrimSpace s) \<le> length (rev (trimRunes spaceRunes s))"
    unfolding TrimSpace_def using length_trimRunes_le [of "map rev spaceRunes" "rev (trimRunes spaceRunes s)"]
    by simp
  also have "\<dots> \<le> length s" using length_trimRunes_le [of spaceRunes s] by simp
  finally show ?thesis .
qed

definition weight :: "string \<Rightarrow> string list \<Rightarrow> nat" where
  "weight op xs = sum_list (map (\<lambda>x. length x + length op) xs)"

lemma Split_weight: "sep \<noteq> [] \<Longrightarrow> weight sep (Split s sep) = length s + length sep"
proof (induction s sep rule: Split.induct)
  case (1 s sep)
  show ?case
  proof (cases "Cut s sep")
    case None
    with "1.prems" have "Split s sep = [s]" by (subst Split.simps) simp
    then show ?thesis by (simp add: weight_def)
  next
    case (Some ba)
    obtain b a where ba: "ba = (b, a)" by (cases ba)
    from "1.IH" [OF "1.prems" Some ba [symmetric]] "1.prems"
    have "weight sep (Split a sep) = length a + length sep" by simp
    moreover have "length s = length b + length sep + length a"
      using Some ba Cut_length by simp
    moreover have "Split s sep = b # Split a sep"
      using "1.prems" Some ba by (subst Split.simps) simp
    ultimately show ?thesis by (simp add: weight_def)
  qed
qed

lemma splitLoop_weight:
  "splitLoop op tokens parts current depth = (parts', current', depth') \<Longrightarrow>
   weight op parts' + length current' \<le> weight op parts + length current + weight op tokens"
proof (induction tokens arbitrary: parts current depth)
  case Nil
  then show ?case by (simp add: weight_def)
next
  case (Cons token tokens)
  show ?case
  proof (cases "CountByte current CHR ''('' > CountByte current CHR '')''")
    case True
    with Cons.prems have "splitLoop op tokens parts (current @ op @ token)
        (CountByte current CHR ''('' - CountByte current CHR '')'') = (parts', current', depth')"
      by (simp add: Let_def)
    from Cons.IH [OF this] show ?thesis by (simp add: weight_def)
  next
    case False
    with Cons.prems have "splitLoop op tokens (parts @ [TrimSpace current]) token 0
        = (parts', current', depth')"
      by (simp add: Let_def)
    from Cons.IH [OF this] length_TrimSpace_le [of current] show ?thesis
      by (simp add: weight_def)
  qed
qed

lemma splitOnOperator_weight:
  assumes "op \<noteq> []"
  shows "weight op (splitOnOperator expr op) \<le> length expr + length op"
proof (cases "Split expr op")
  case Nil
  then show ?thesis by (simp add: splitOnOperator_def weight_def)
next
  case (Cons token tokens)
  obtain parts current depth where l: "splitLoop op tokens [] token 0 = (parts, current, depth)"
    by (cases "splitLoop op tokens [] token 0") auto
  from splitLoop_weight [OF l]
  have "weight op parts + length current \<le> length token + weight op tokens"
    by (simp add: weight_def)
  moreover have "weight op (token # tokens) = length expr + length op"
    using Split_weight [OF assms, of expr] Cons by simp
  ultimately have b: "weight op parts + length current + length op \<le> length expr + length op"
    by (simp add: weight_def)
  have "weight op (parts @ [TrimSpace current]) \<le> weight op parts + length current + length op"
    using length_TrimSpace_le [of current] by (simp add: weight_def)
  with b have "weight op (parts @ [TrimSpace current]) \<le> length expr + length op"
    and "weight op parts \<le> length expr + length op" by simp_all
  then show ?thesis
    using Cons l by (simp add: splitOnOperator_def Let_def weight_def)
qed

lemma weight_lower: "length xs * length op \<le> weight op xs"
  by (induction xs) (auto simp: weight_def)

lemma weight_member: "p \<in> set xs \<Longrightarrow> length p + length xs * length op \<le> weight op xs"
proof (induction xs)
  case Nil
  then show ?case by simp
next
  case (Cons x xs)
  show ?case
  proof (cases "p = x")
    case True
    with weight_lower [of xs op] show ?thesis by (simp add: weight_def)
  next
    case False
    with Cons show ?thesis by (simp add: weight_def)
  qed
qed

lemma splitOnOperator_shorter:
  assumes "op \<noteq> []" and "1 < length (splitOnOperator expr op)"
    and "p \<in> set (splitOnOperator expr op)"
  shows "length p < length expr"
proof -
  have "length p + length (splitOnOperator expr op) * length op \<le> length expr + length op"
    using weight_member [OF assms(3)] splitOnOperator_weight [OF assms(1)] le_trans by blast
  moreover have "2 * length op \<le> length (splitOnOperator expr op) * length op"
    using assms(2) by simp
  moreover have "0 < length op" using assms(1) by simp
  ultimately show ?thesis by linarith
qed

lemma HasPrefix_length: "HasPrefix s p \<Longrightarrow> length p \<le> length s"
proof -
  assume "HasPrefix s p"
  then have "length (take (length p) s) = length p"
    unfolding HasPrefix_def by simp
  then show ?thesis by (simp add: min_def split: if_splits)
qed

function Evaluate :: "host \<Rightarrow> Variables \<Rightarrow> string \<Rightarrow> eval_error + bool" where
  "Evaluate h v expression0 =
     (let expression = TrimSpace expression0 in
      if expression = [] then Inr True
      else if expression = ''true'' then Inr True
      else if expression = ''false'' then Inr False
      else if length (splitOnOperator expression '' and '') > 1 then
        andLoop (Evaluate h v) (splitOnOperator expression '' and '')
      else if length (splitOnOperator expression '' or '') > 1 then
        orLoop (Evaluate h v) (splitOnOperator expression '' or '')
      else if HasPrefix expression ''('' \<and> HasSuffix expression '')'' then
        Evaluate h v (take (length expression - 2) (drop 1 expression))
      else if HasPrefix expression ''not '' then
        (case Evaluate h v (TrimPrefix expression ''not '') of
           Inl err \<Rightarrow> Inl err
         | Inr result \<Rightarrow> Inr (\<not> result))
      else evaluateComparison h v expression)"
  by pat_completeness auto
termination
proof (relation "measure (\<lambda>(h, v, e). length e)", goal_cases)
  case 1
  show ?case by simp
next
  case (2 h v expression0 x p)
  then show ?case
    using splitOnOperator_shorter [of "'' and ''" x p] length_TrimSpace_le [of expression0]
    by simp
next
  case (3 h v expression0 x p)
  then show ?case
    using splitOnOperator_shorter [of "'' or ''" x p] length_TrimSpace_le [of expression0]
    by simp
next
  case (4 h v expression0 x)
  then have "0 < length x" and "length x \<le> length expression0"
    using length_TrimSpace_le [of expression0] by simp_all
  then have "length x - 2 < length expression0" by linarith
  then show ?case by simp
next
  case (5 h v expression0 x)
  then show ?case
    using length_TrimSpace_le [of expression0] HasPrefix_length [of x "''not ''"]
    by (simp add: TrimPrefix_def)
qed

declare Evaluate.simps [simp del]

section \<open>Executor\<close>

text \<open>
  What an execution acts on: the host's state \<open>world\<close>, of any type, changed by the action
  handlers and by waiting; the progress notifications delivered so far, in order; and, kept
  for the statements about dispatch, the list of calls of a handler's \<open>Execute\<close>, each
  with the task's action and the substituted parameters.
\<close>

record 'w sys =
  world :: 'w
  handlerCalls :: "(string \<times> params) list"
  progressLog :: "(string \<times> TaskStatus) list"

text \<open>
  An action handler: the platforms it supports and its \<open>Execute\<close>, which returns a result
  or none, an error text or none, and the new state of the host.
\<close>

record 'w ActionHandler =
  Supports :: "string list"
  hExecute :: "params \<Rightarrow> Variables \<Rightarrow> 'w \<Rightarrow> (TaskResult option \<times> string option) \<times> 'w"

text \<open>
  The cancellation context: \<open>ctx_Done\<close> tells whether it is cancelled in a state of the
  host; \<open>ctx_After d\<close> is the \<open>select\<close> between cancellation and a timer of \<open>d\<close>
  nanoseconds: whether cancellation came first, and the state after the wait.
\<close>

record 'w Context =
  ctx_Done :: "'w \<Rightarrow> bool"
  ctx_After :: "64 word \<Rightarrow> 'w \<Rightarrow> bool \<times> 'w"

record 'w Executor =
  e_verifier :: "byte list"
  e_parser :: string
  e_handlers :: "string \<rightharpoonup> 'w ActionHandler"
  e_platform :: string
  e_deviceID :: string
  e_onProgress :: bool

definition NewExecutor :: "host \<Rightarrow> byte list \<Rightarrow> string \<Rightarrow> bool \<Rightarrow> verify_error + 'w Executor" where
  "NewExecutor h serverPublicKey deviceID onProgress =
     (case NewVerifier serverPublicKey of
        Inl err \<Rightarrow> Inl err
      | Inr verifier \<Rightarrow>
          Inr \<lparr>e_verifier = verifier, e_parser = NewParser h, e_handlers = Map.empty,
               e_platform = GOOS h, e_deviceID = deviceID, e_onProgress = onProgress\<rparr>)"

definition RegisterHandler :: "'w Executor \<Rightarrow> string \<Rightarrow> 'w ActionHandler \<Rightarrow> 'w Executor" where
  "RegisterHandler e actionType handler = e\<lparr>e_handlers := (e_handlers e)(actionType \<mapsto> handler)\<rparr>"

text \<open>The call of the progress callback, when one is configured.\<close>

definition progress :: "'w Executor \<Rightarrow> string \<Rightarrow> TaskStatus \<Rightarrow> 'w sys \<Rightarrow> 'w sys" where
  "progress e taskName status s =
     (if e_onProgress e then s\<lparr>progressLog := progressLog s @ [(taskName, status)]\<rparr> else s)"

fun supportsPlatform :: "string \<Rightarrow> string list \<Rightarrow> bool" where
  "supportsPlatform platform [] = False"
| "supportsPlatform platform (p # ps) =
     (if p = platform \<or> p = ''all'' then True else supportsPlatform platform ps)"

definition newResult :: "Task \<Rightarrow> TaskResult" where
  "newResult task =
     \<lparr>tr_TaskName = t_Name task, tr_TaskID = t_ID task, tr_Status = TaskStatusPending,
      tr_Changed = False, tr_Stdout = [], tr_Stderr = [], tr_ExitCode = 0, tr_Error = [],
      tr_Message = [], tr_ResultMeta = t_Result task\<rparr>"

text \<open>
  The part of \<open>executeTask\<close> before the retry loop: it ends the task early with a result,
  panics inside the condition evaluator, or yields the handler and the substituted
  parameters.
\<close>

datatype 'w preflight =
    Early TaskResult
  | Panicked
  | Ready "'w ActionHandler" params

definition checkCondition :: "host \<Rightarrow> Task \<Rightarrow> Variables \<Rightarrow> TaskResult \<Rightarrow> 'w preflight option" where
  "checkCondition h task vars result =
     (if t_When task \<noteq> [] then
        (case Evaluate h vars (t_When task) of
           Inl EvalPanic \<Rightarrow> Some Panicked
         | Inl (EvalError msg) \<Rightarrow>
             Some (Early (result\<lparr>tr_Status := TaskStatusFailed,
                                  tr_Error := ''condition evaluation failed: '' @ msg\<rparr>))
         | Inr condResult \<Rightarrow>
             if \<not> condResult then
               Some (Early (result\<lparr>tr_Status := TaskStatusSkipped,
                                    tr_Message := ''Skipped: condition '' @ [CHR 0x27] @ t_When task
                                                  @ [CHR 0x27] @ '' evaluated to false''\<rparr>))
             else None)
      else None)"

definition preflight :: "'w Executor \<Rightarrow> host \<Rightarrow> Task \<Rightarrow> Variables \<Rightarrow> TaskResult \<Rightarrow> 'w preflight" where
  "preflight e h task vars result =
     (if t_Platform task \<noteq> [] \<and> t_Platform task \<noteq> e_platform e then
        Early (result\<lparr>tr_Status := TaskStatusSkipped,
                       tr_Message := ''Skipped: platform filter '' @ [CHR 0x27] @ t_Platform task
                                     @ [CHR 0x27] @ '' doesn'' @ [CHR 0x27] @ ''t match ''
                                     @ [CHR 0x27] @ e_platform e @ [CHR 0x27]\<rparr>)
      else
        (case checkCondition h task vars result of
           Some r \<Rightarrow> r
         | None \<Rightarrow>
            (case e_handlers e (t_Action task) of
               None \<Rightarrow>
                 Early (result\<lparr>tr_Status := TaskStatusFailed,
                                tr_Error := ''no handler registered for action '' @ [CHR 0x27]
                                            @ t_Action task @ [CHR 0x27]\<rparr>)
             | Some handler \<Rightarrow>
                 if \<not> supportsPlatform (e_platform e) (Supports handler) then
                   Early (result\<lparr>tr_Status := TaskStatusFailed,
                                  tr_Error := ''action '' @ [CHR 0x27] @ t_Action task @ [CHR 0x27]
                                              @ '' does not support platform '' @ [CHR 0x27]
                                              @ e_platform e @ [CHR 0x27]\<rparr>)
                 else
                   (case SubstituteMap h vars (t_Params task) of
                      Inl err \<Rightarrow>
                        Early (result\<lparr>tr_Status := TaskStatusFailed,
                                       tr_Error := ''variable substitution failed: ''
                                                   @ varErrorText err\<rparr>)
                    | Inr ps \<Rightarrow> Ready handler ps))))"

text \<open>
  The retry loop, by the number of attempts still to make. It ends with the result of a
  successful attempt, with a cancellation during the delay, or with all attempts used and
  the last error.
\<close>

datatype retry_outcome =
    Succeeded TaskResult
  | Cancelled TaskResult
  | Exhausted TaskResult "string option"

fun retryLoop :: "'w Context \<Rightarrow> 'w ActionHandler \<Rightarrow> params \<Rightarrow> Variables \<Rightarrow> Task \<Rightarrow> nat \<Rightarrow> TaskResult \<Rightarrow> string option \<Rightarrow> 'w sys \<Rightarrow> retry_outcome \<times> 'w sys" where
  "retryLoop ctx handler ps vars task 0 result lastErr s = (Exhausted result lastErr, s)"
| "retryLoop ctx handler ps vars task (Suc remaining) result lastErr s =
     (case hExecute handler ps vars (world s) of
        ((execResult, execErr), w1) \<Rightarrow>
          (let s1 = s\<lparr>world := w1, handlerCalls := handlerCalls s @ [(t_Action task, ps)]\<rparr>;
               result1 = result\<lparr>tr_Status := TaskStatusRunning\<rparr>
           in
           case (execErr, execResult) of
             (None, Some r) \<Rightarrow>
               (Succeeded (result1\<lparr>tr_Status := TaskStatusCompleted, tr_Changed := tr_Changed r,
                                     tr_Stdout := tr_Stdout r, tr_Stderr := tr_Stderr r,
                                     tr_ExitCode := tr_ExitCode r, tr_Message := tr_Message r\<rparr>),
                s1)
           | _ \<Rightarrow>
               (let result2 = (case execResult of
                                 Some r \<Rightarrow> result1\<lparr>tr_Stdout := tr_Stdout r, tr_Stderr := tr_Stderr r,
                                                    tr_ExitCode := tr_ExitCode r\<rparr>
                               | None \<Rightarrow> result1)
                in
                if 0 < remaining \<and> 0 < sint (t_RetryDelay task) then
                  (case ctx_After ctx (t_RetryDelay task * 1000000000) (world s1) of
                     (cancelled, w2) \<Rightarrow>
                       if cancelled then
                         (Cancelled (result2\<lparr>tr_Status := TaskStatusFailed,
                                              tr_Error := ''cancelled during retry delay''\<rparr>),
                          s1\<lparr>world := w2\<rparr>)
                       else retryLoop ctx handler ps vars task remaining result2 execErr
                              (s1\<lparr>world := w2\<rparr>))
                else retryLoop ctx handler ps vars task remaining result2 execErr s1)))"

text \<open>\<open>maxAttempts := task.Retries + 1\<close> in 64-bit arithmetic, as a number of attempts.\<close>

definition maxAttempts :: "Task \<Rightarrow> nat" where
  "maxAttempts task = nat (sint (t_Retries task + 1))"

lemma rollback_smaller: "t_Rollback task = Some rollback \<Longrightarrow> size rollback < size task"
  by (cases task) simp

text \<open>
  \<open>executeTask\<close>; \<open>None\<close> is a panic. The rollback of a task is a task of its own, run
  by the same function.
\<close>

function executeTask :: "'w Executor \<Rightarrow> 'w Context \<Rightarrow> host \<Rightarrow> Task \<Rightarrow> Variables \<Rightarrow> 'w sys \<Rightarrow> TaskResult option \<times> 'w sys" where
  "executeTask e ctx h task vars s =
     (case preflight e h task vars (newResult task) of
        Early r \<Rightarrow> (Some r, progress e (t_Name task) TaskStatusRunning s)
      | Panicked \<Rightarrow> (None, progress e (t_Name task) TaskStatusRunning s)
      | Ready handler ps \<Rightarrow>
         (case retryLoop ctx handler ps vars task (maxAttempts task) (newResult task) None
                 (progress e (t_Name task) TaskStatusRunning s) of
            (Succeeded r, s1) \<Rightarrow> (Some r, progress e (t_Name task) TaskStatusCompleted s1)
          | (Cancelled r, s1) \<Rightarrow> (Some r, s1)
          | (Exhausted r lastErr, s1) \<Rightarrow>
              (let r1 = r\<lparr>tr_Status := TaskStatusFailed,
                          tr_Error := (case lastErr of
                                         Some msg \<Rightarrow> msg
                                       | None \<Rightarrow> ''task failed after all retries'')\<rparr>
               in
               case t_Rollback task of
                 None \<Rightarrow> (Some r1, progress e (t_Name task) TaskStatusFailed s1)
               | Some rollback \<Rightarrow>
                  (case executeTask e ctx h rollback vars s1 of
                     (None, s2) \<Rightarrow> (None, s2)
                   | (Some rollbackResult, s2) \<Rightarrow>
                       (Some (if tr_Status rollbackResult = TaskStatusFailed then
                                r1\<lparr>tr_Error := tr_Error r1 @ '' (rollback also failed: ''
                                                 @ tr_Error rollbackResult @ '')''\<rparr>
                              else r1\<lparr>tr_Message := ''Rollback executed successfully''\<rparr>),
                        progress e (t_Name task) TaskStatusFailed s2)))))"
  by pat_completeness auto
termination
  by (relation "measure (\<lambda>(e, ctx, h, task, vars, s). size task)")
     (auto dest: rollback_smaller)

declare executeTask.simps [simp del]

datatype exec_error =
    ExecVerifyError verify_error
  | ExecParseError parse_error
  | ErrPlatformMismatch
  | ExecCancelled
  | ExecTaskFailed string
  | ExecDryRunIssues int

fun verifyErrorText :: "verify_error \<Rightarrow> string" where
  "verifyErrorText ErrHashMismatch =
     ''SECURITY VIOLATION: playbook hash mismatch - content may have been tampered''"
| "verifyErrorText ErrInvalidSignature =
     ''SECURITY VIOLATION: invalid signature - playbook not authenticated''"
| "verifyErrorText ErrNotApproved =
     ''SECURITY VIOLATION: playbook not approved - requires human review''"
| "verifyErrorText ErrEmptyContent = ''SECURITY VIOLATION: empty playbook content''"
| "verifyErrorText ErrMissingHash = ''SECURITY VIOLATION: missing playbook hash''"
| "verifyErrorText ErrMissingSignature = ''SECURITY VIOLATION: missing playbook signature''"
| "verifyErrorText ErrInvalidPublicKey = ''SECURITY VIOLATION: invalid server public key''"

text \<open>
  The bookkeeping of \<open>Execute\<close> after a task of the loop has returned: the counters, the
  set of notified handlers, and the decision to abort.
\<close>

definition afterTask :: "Playbook \<Rightarrow> Task \<Rightarrow> TaskResult \<Rightarrow> ExecutionReport \<Rightarrow> string set \<Rightarrow> (ExecutionReport \<times> exec_error) + (ExecutionReport \<times> string set)" where
  "afterTask playbook task result report notifiedHandlers =
     (case tr_Status result of
        TaskStatusCompleted \<Rightarrow>
          Inr (report\<lparr>rep_TasksCompleted := rep_TasksCompleted report + 1\<rparr>,
               if tr_Changed result then notifiedHandlers \<union> set (t_Notify task)
               else notifiedHandlers)
      | TaskStatusFailed \<Rightarrow>
          (let report1 = report\<lparr>rep_TasksFailed := rep_TasksFailed report + 1\<rparr> in
           if \<not> t_IgnoreErrors task \<and>
              (case pb_OnError playbook of None \<Rightarrow> True | Some oe \<Rightarrow> eh_Strategy oe = ''stop'')
           then
             Inl (report1\<lparr>rep_Status := ''failed'', rep_ErrorMessage := tr_Error result\<rparr>,
                  ExecTaskFailed (''task '' @ [CHR 0x27] @ t_Name task @ [CHR 0x27]
                                   @ '' failed: '' @ tr_Error result))
           else Inr (report1, notifiedHandlers))
      | TaskStatusSkipped \<Rightarrow>
          Inr (report\<lparr>rep_TasksSkipped := rep_TasksSkipped report + 1\<rparr>, notifiedHandlers)
      | _ \<Rightarrow> Inr (report, notifiedHandlers))"

datatype loop_result =
    LoopAborted ExecutionReport exec_error
  | LoopFinished ExecutionReport Variables "string set"
  | LoopPanicked

fun taskLoop :: "'w Executor \<Rightarrow> 'w Context \<Rightarrow> host \<Rightarrow> Playbook \<Rightarrow> Task list \<Rightarrow> Variables \<Rightarrow> string set \<Rightarrow> ExecutionReport \<Rightarrow> 'w sys \<Rightarrow> loop_result \<times> 'w sys" where
  "taskLoop e ctx h playbook [] vars notifiedHandlers report s =
     (LoopFinished report vars notifiedHandlers, s)"
| "taskLoop e ctx h playbook (task # tasks) vars notifiedHandlers report s =
     (if ctx_Done ctx (world s) then
        (LoopAborted (report\<lparr>rep_Status := ''cancelled''\<rparr>) ExecCancelled, s)
      else
        (case executeTask e ctx h task vars s of
           (None, s1) \<Rightarrow> (LoopPanicked, s1)
         | (Some result, s1) \<Rightarrow>
            (case afterTask playbook task result
                    (report\<lparr>rep_TaskResults := rep_TaskResults report @ [result]\<rparr>)
                    notifiedHandlers of
               Inl (report1, err) \<Rightarrow> (LoopAborted report1 err, s1)
             | Inr (report1, notifiedHandlers1) \<Rightarrow>
                 taskLoop e ctx h playbook tasks
                   (if t_Register task \<noteq> [] then SetTaskResult vars (t_Register task) result
                    else vars)
                   notifiedHandlers1 report1 s1)))"

fun runHandlers :: "'w Executor \<Rightarrow> 'w Context \<Rightarrow> host \<Rightarrow> Task list \<Rightarrow> Variables \<Rightarrow> string set \<Rightarrow> ExecutionReport \<Rightarrow> 'w sys \<Rightarrow> ExecutionReport option \<times> 'w sys" where
  "runHandlers e ctx h [] vars notifiedHandlers report s = (Some report, s)"
| "runHandlers e ctx h (handler # handlers) vars notifiedHandlers report s =
     (if t_Name handler \<in> notifiedHandlers then
        (case executeTask e ctx h handler vars s of
           (None, s1) \<Rightarrow> (None, s1)
         | (Some result, s1) \<Rightarrow>
             runHandlers e ctx h handlers vars notifiedHandlers
               ((report\<lparr>rep_TaskResults := rep_TaskResults report @ [result]\<rparr>)
                  \<lparr>rep_TasksFailed :=
                     (if tr_Status result = TaskStatusFailed \<and> \<not> t_IgnoreErrors handler
                      then rep_TasksFailed report + 1 else rep_TasksFailed report)\<rparr>)
               s1)
      else runHandlers e ctx h handlers vars notifiedHandlers report s)"

definition emptyVerification :: VerificationRecord where
  "emptyVerification =
     \<lparr>vr_ExpectedHash = [], vr_CalculatedHash = [], vr_HashVerified = False,
      vr_SignatureVerified = False, vr_ApprovalStatus = [], vr_ApprovalVerified = False,
      vr_AllChecksPass = False, vr_FailureReason = []\<rparr>"

definition newReport :: "'w Executor \<Rightarrow> SignedPlaybook \<Rightarrow> string \<Rightarrow> ExecutionReport" where
  "newReport e sp status =
     \<lparr>rep_PlaybookID = sp_PlaybookID sp, rep_PlaybookName = [], rep_DeviceID = e_deviceID e,
      rep_Verification = emptyVerification, rep_Status = status, rep_TasksTotal = 0,
      rep_TasksCompleted = 0, rep_TasksFailed = 0, rep_TasksSkipped = 0, rep_TaskResults = [],
      rep_ErrorMessage = [], rep_RebootRequired = False\<rparr>"

text \<open>
  \<open>Execute\<close> returns the report and the error, or panics (\<open>None\<close>), and leaves the host
  in a new state.
\<close>

definition Execute :: "'w Executor \<Rightarrow> 'w Context \<Rightarrow> host \<Rightarrow> SignedPlaybook \<Rightarrow> 'w sys \<Rightarrow> (ExecutionReport \<times> exec_error option) option \<times> 'w sys" where
  "Execute e ctx h sp s =
     (case Verify h (e_verifier e) sp of
        (verificationRecord, Some verifyErr) \<Rightarrow>
          (Some ((newReport e sp ''pending'')
                   \<lparr>rep_Verification := verificationRecord, rep_Status := ''rejected'',
                    rep_ErrorMessage := ''SECURITY: '' @ verifyErrorText verifyErr\<rparr>,
                 Some (ExecVerifyError verifyErr)), s)
      | (verificationRecord, None) \<Rightarrow>
         (let report = (newReport e sp ''pending'')\<lparr>rep_Verification := verificationRecord\<rparr> in
          case Parse h (e_parser e) (sp_Content sp) of
            Inl parseErr \<Rightarrow>
              (Some (report\<lparr>rep_Status := ''failed'',
                            rep_ErrorMessage := ''Parse error: '' @ parseErrorText parseErr\<rparr>,
                     Some (ExecParseError parseErr)), s)
          | Inr playbook \<Rightarrow>
             (let report1 = report\<lparr>rep_PlaybookName := pb_Name playbook\<rparr> in
              if length (pb_Platforms playbook) > 0 \<and> e_platform e \<notin> set (pb_Platforms playbook)
              then
                (Some (report1\<lparr>rep_Status := ''rejected'',
                               rep_ErrorMessage := ''Platform '' @ [CHR 0x27] @ e_platform e
                                 @ [CHR 0x27] @ '' not supported by this playbook''\<rparr>,
                       Some ErrPlatformMismatch), s)
              else
                (case taskLoop e ctx h playbook (pb_Tasks playbook)
                        (SetUserVars h (NewVariables h) (pb_Variables playbook)) {}
                        (report1\<lparr>rep_Status := ''running'',
                                  rep_TasksTotal := int (length (pb_Tasks playbook))\<rparr>) s of
                   (LoopPanicked, s1) \<Rightarrow> (None, s1)
                 | (LoopAborted report2 err, s1) \<Rightarrow> (Some (report2, Some err), s1)
                 | (LoopFinished report2 vars notifiedHandlers, s1) \<Rightarrow>
                    (case runHandlers e ctx h (pb_Handlers playbook) vars notifiedHandlers
                            report2 s1 of
                       (None, s2) \<Rightarrow> (None, s2)
                     | (Some report3, s2) \<Rightarrow>
                         (Some (report3\<lparr>rep_Status := ''completed'',
                                        rep_RebootRequired := pb_RequiresReboot playbook\<rparr>,
                                None), s2))))))"

subsection \<open>Dry run\<close>

definition hasOperator :: "string \<Rightarrow> bool" where
  "hasOperator expression =
     (Contains expression ''=='' \<or> Contains expression ''!='' \<or> Contains expression ''>=''
      \<or> Contains expression ''<='' \<or> Contains expression ''>'' \<or> Contains expression ''<''
      \<or> Contains expression '' contains '' \<or> Contains expression '' not contains ''
      \<or> Contains expression '' and '' \<or> Contains expression '' or ''
      \<or> HasPrefix expression ''not '')"

definition isValidIdentifier :: "host \<Rightarrow> string \<Rightarrow> bool" where
  "isValidIdentifier h s0 =
     (let s = TrimSpace s0 in
      if s = [] then False
      else if isQuoted s then True
      else if ParseFloat h s \<noteq> None then True
      else (case s of c # cs \<Rightarrow> isIdentStart c \<and> list_all isVarChar cs | [] \<Rightarrow> False))"

definition ValidateCondition :: "host \<Rightarrow> string \<Rightarrow> string option" where
  "ValidateCondition h expression0 =
     (let expression = TrimSpace expression0 in
      if expression = [] \<or> expression = ''true'' \<or> expression = ''false'' then None
      else if CountByte expression CHR ''('' \<noteq> CountByte expression CHR '')'' then
        Some (''unbalanced parentheses in condition: '' @ expression)
      else if \<not> hasOperator expression \<and> \<not> isValidIdentifier h expression then
        Some (''invalid condition syntax: '' @ expression)
      else None)"

definition simulateTask :: "'w Executor \<Rightarrow> host \<Rightarrow> Task \<Rightarrow> TaskResult \<times> int" where
  "simulateTask e h task =
     (let simResult = (newResult task)\<lparr>tr_ResultMeta := None\<rparr>;
          (simResult1, failed1) =
            (if t_Platform task \<noteq> [] \<and> t_Platform task \<noteq> e_platform e then
               (simResult\<lparr>tr_Status := TaskStatusSkipped,
                          tr_Message := ''Would skip: platform filter''\<rparr>, 0)
             else if t_When task \<noteq> [] then
               (case ValidateCondition h (t_When task) of
                  Some err \<Rightarrow>
                    (simResult\<lparr>tr_Status := TaskStatusFailed,
                               tr_Error := ''Invalid condition: '' @ err\<rparr>, 1)
                | None \<Rightarrow>
                    (simResult\<lparr>tr_Status := TaskStatusPending,
                               tr_Message := ''Would execute if condition '' @ [CHR 0x27]
                                             @ t_When task @ [CHR 0x27] @ '' is true''\<rparr>, 0))
             else (simResult\<lparr>tr_Status := TaskStatusPending, tr_Message := ''Would execute''\<rparr>, 0))
      in
      if e_handlers e (t_Action task) = None then
        (simResult1\<lparr>tr_Status := TaskStatusFailed,
                    tr_Error := ''No handler for action '' @ [CHR 0x27] @ t_Action task
                                @ [CHR 0x27]\<rparr>, failed1 + 1)
      else (simResult1, failed1))"

fun simulateTasks :: "'w Executor \<Rightarrow> host \<Rightarrow> Task list \<Rightarrow> ExecutionReport \<Rightarrow> ExecutionReport" where
  "simulateTasks e h [] report = report"
| "simulateTasks e h (task # tasks) report =
     (case simulateTask e h task of
        (simResult, failed) \<Rightarrow>
          simulateTasks e h tasks
            (report\<lparr>rep_TasksFailed := rep_TasksFailed report + failed,
                     rep_TaskResults := rep_TaskResults report @ [simResult]\<rparr>))"

definition DryRun :: "'w Executor \<Rightarrow> 'w Context \<Rightarrow> host \<Rightarrow> SignedPlaybook \<Rightarrow> 'w sys \<Rightarrow> (ExecutionReport \<times> exec_error option) option \<times> 'w sys" where
  "DryRun e ctx h sp s =
     (case Verify h (e_verifier e) sp of
        (verificationRecord, Some verifyErr) \<Rightarrow>
          (Some ((newReport e sp ''dry_run'')
                   \<lparr>rep_Verification := verificationRecord, rep_Status := ''rejected'',
                    rep_ErrorMessage := ''SECURITY: '' @ verifyErrorText verifyErr\<rparr>,
                 Some (ExecVerifyError verifyErr)), s)
      | (verificationRecord, None) \<Rightarrow>
         (let report = (newReport e sp ''dry_run'')\<lparr>rep_Verification := verificationRecord\<rparr> in
          case Parse h (e_parser e) (sp_Content sp) of
            Inl parseErr \<Rightarrow>
              (Some (report\<lparr>rep_Status := ''failed'',
                            rep_ErrorMessage := ''Parse error: '' @ parseErrorText parseErr\<rparr>,
                     Some (ExecParseError parseErr)), s)
          | Inr playbook \<Rightarrow>
             (let report1 = simulateTasks e h (pb_Tasks playbook)
                              (report\<lparr>rep_PlaybookName := pb_Name playbook,
                                       rep_TasksTotal := int (length (pb_Tasks playbook))\<rparr>)
              in
              if rep_TasksFailed report1 > 0 then
                (Some (report1\<lparr>rep_Status := ''dry_run_failed''\<rparr>,
                       Some (ExecDryRunIssues (rep_TasksFailed report1))), s)
              else (Some (report1\<lparr>rep_Status := ''dry_run_ok''\<rparr>, None), s))))"

section \<open>The command action\<close>

text \<open>
  What the handler takes from the operating system: running a child process, described by
  the shell, its arguments, the working directory and the time limit in nanoseconds, which
  yields the output, the error of \<open>cmd.Run\<close> and whether the time limit
  passed; the test \<open>test -e path\<close>; and the conversion of a \<open>float64\<close> to a
  64-bit integer.
\<close>

datatype run_error =
    ExitError int
  | OtherRunError

record cmd_spec =
  cs_shell :: string
  cs_args :: "string list"
  cs_dir :: string
  cs_timeout :: "64 word"

record run_result =
  rr_stdout :: string
  rr_stderr :: string
  rr_err :: "run_error option"
  rr_deadlineExceeded :: bool

record 'w cmd_os =
  os_Run :: "cmd_spec \<Rightarrow> 'w \<Rightarrow> run_result \<times> 'w"
  os_fileExists :: "string \<Rightarrow> 'w \<Rightarrow> bool"
  os_floatToInt64 :: "float64 \<Rightarrow> 64 word"

datatype cmd_error =
    CmdBadCommand
  | CmdTimedOut "64 word"
  | CmdFailed int string

definition getString :: "params \<Rightarrow> string \<Rightarrow> string option" where
  "getString ps k = (case map_of ps k of Some (PStr s) \<Rightarrow> Some s | _ \<Rightarrow> None)"

definition Second :: "64 word" where "Second = 1000000000"

definition commandTimeout :: "'w cmd_os \<Rightarrow> params \<Rightarrow> 64 word" where
  "commandTimeout os ps =
     (case map_of ps ''timeout'' of
        Some (PInt t) \<Rightarrow> if 0 < t then word_of_int t * Second else 5 * 60 * Second
      | Some (PFloat t) \<Rightarrow> if f_lt (Finite 0) t then os_floatToInt64 os t * Second else 5 * 60 * Second
      | _ \<Rightarrow> 5 * 60 * Second)"

definition commandShell :: "host \<Rightarrow> params \<Rightarrow> string \<times> string list" where
  "commandShell h ps =
     (let shell = (case getString ps ''shell'' of Some s \<Rightarrow> s | None \<Rightarrow> []) in
      if shell = [] then
        (if GOOS h = ''windows'' then (''cmd'', [''/C'']) else (''/bin/sh'', [''-c'']))
      else if shell = ''powershell'' \<or> shell = ''pwsh'' then
        (''powershell'', [''-NoProfile'', ''-NonInteractive'', ''-Command''])
      else if shell = ''bash'' then (''/bin/bash'', [''-c''])
      else if shell = ''cmd'' then (''cmd'', [''/C''])
      else (shell, [''-c'']))"

text \<open>
  \<open>CommandHandler.Execute\<close>. The command that runs is the second one the function builds,
  under the time limit; the environment collected from \<open>environment\<close> is set on the first
  one only and does not reach it.
\<close>

definition CommandHandler_Execute :: "host \<Rightarrow> 'w cmd_os \<Rightarrow> params \<Rightarrow> 'w \<Rightarrow> (TaskResult option \<times> cmd_error option) \<times> 'w" where
  "CommandHandler_Execute h os ps w =
     (let result = \<lparr>tr_TaskName = [], tr_TaskID = [], tr_Status = TaskStatusRunning,
                     tr_Changed = False, tr_Stdout = [], tr_Stderr = [], tr_ExitCode = 0,
                     tr_Error = [], tr_Message = [], tr_ResultMeta = None\<rparr>
      in
      case getString ps ''command'' of
        None \<Rightarrow> ((None, Some CmdBadCommand), w)
      | Some cmdStr \<Rightarrow>
         if cmdStr = [] then ((None, Some CmdBadCommand), w)
         else
           (let workDir = (case getString ps ''chdir'' of Some wd \<Rightarrow> wd | None \<Rightarrow> []);
                timeout = commandTimeout os ps;
                (shell, shellArgs) = commandShell h ps
            in
            case os_Run os \<lparr>cs_shell = shell, cs_args = shellArgs @ [cmdStr], cs_dir = workDir,
                             cs_timeout = timeout\<rparr> w of
              (run, w1) \<Rightarrow>
                (let result1 = result\<lparr>tr_Stdout := TrimSpace (rr_stdout run),
                                       tr_Stderr := TrimSpace (rr_stderr run)\<rparr>
                 in
                 case rr_err run of
                   Some err \<Rightarrow>
                     (let result2 = result1\<lparr>tr_ExitCode :=
                                      (case err of ExitError code \<Rightarrow> code | OtherRunError \<Rightarrow> - 1)\<rparr>
                      in
                      if rr_deadlineExceeded run then ((Some result2, Some (CmdTimedOut timeout)), w1)
                      else if map_of ps ''fail_on_error'' = Some (PBool False) then
                        ((Some (result2\<lparr>tr_Status := TaskStatusCompleted, tr_Changed := True\<rparr>),
                          None), w1)
                      else
                        ((Some result2, Some (CmdFailed (tr_ExitCode result2) (tr_Stderr result2))),
                         w1))
                 | None \<Rightarrow>
                     (let result2 = result1\<lparr>tr_ExitCode := 0, tr_Status := TaskStatusCompleted,
                                            tr_Changed := True\<rparr>
                      in
                      case getString ps ''creates'' of
                        Some creates \<Rightarrow>
                          if creates \<noteq> [] \<and> os_fileExists os creates w1 then
                            ((Some (result2\<lparr>tr_Changed := False,
                                            tr_Message := ''Skipped: '' @ [CHR 0x27] @ creates
                                                          @ [CHR 0x27] @ '' already exists''\<rparr>),
                              None), w1)
                          else ((Some result2, None), w1)
                      | None \<Rightarrow> ((Some result2, None), w1)))))"

section \<open>A sample host\<close>

definition sample_ParseFloat :: "string \<Rightarrow> float64 option" where
  "sample_ParseFloat s =
     (if s \<noteq> [] \<and> list_all isDigit s
      then Some (Finite (of_nat (foldl (\<lambda>n c. 10 * n + (of_char c - 48)) 0 s)))
      else None)"

definition sample_Sum256 :: "string \<Rightarrow> byte list" where
  "sample_Sum256 s = [word_of_nat (length s), 0xAB]"

definition sample_Verify :: "byte list \<Rightarrow> byte list \<Rightarrow> byte list \<Rightarrow> bool" where
  "sample_Verify key msg sig = (sig = key @ msg)"

definition sample_key :: "byte list" where
  "sample_key = replicate 32 7"

definition sample_host :: "(string \<Rightarrow> string + Playbook) \<Rightarrow> host" where
  "sample_host unmarshal =
     \<lparr>GOOS = ''linux'', GOARCH = ''amd64'',
      Getenv = (\<lambda>name. if name = ''HOME'' then ''/root'' else []),
      Hostname = Some ''node1'', TempDir = ''/tmp'', Separator = ''/'',
      Join = (\<lambda>ps. foldr (\<lambda>p acc. if acc = [] then p else p @ ''/'' @ acc) ps []),
      ParseFloat = sample_ParseFloat, Sum256 = sample_Sum256,
      ed25519_Verify = sample_Verify, Unmarshal = unmarshal,
      Map_ToLower = map toLowerByte\<rparr>"

definition sample_sp :: "string \<Rightarrow> string \<Rightarrow> SignedPlaybook" where
  "sample_sp content status =
     \<lparr>sp_Content = content, sp_SHA256Hash = EncodeToString (sample_Sum256 content),
      sp_Signature = sample_key @ sample_Sum256 content, sp_Status = status,
      sp_PlaybookID = ''pb-1'', sp_ApprovedBy = ''admin''\<rparr>"

section \<open>The specification's admission pipeline\<close>

text \<open>
  The checks of the specification, section 4.1, in its order: presence of content, of the
  hash and of the signature, then the digest, the signature and the approval status. The
  value is the first check that fails.
\<close>

definition spec_first_failing_check :: "host \<Rightarrow> byte list \<Rightarrow> SignedPlaybook \<Rightarrow> verify_error option" where
  "spec_first_failing_check h key sp =
     (if sp_Content sp = [] then Some ErrEmptyContent
      else if sp_SHA256Hash sp = [] then Some ErrMissingHash
      else if sp_Signature sp = [] then Some ErrMissingSignature
      else if EncodeToString (Sum256 h (sp_Content sp)) \<noteq> sp_SHA256Hash sp then Some ErrHashMismatch
      else if \<not> ed25519_Verify h key (Sum256 h (sp_Content sp)) (sp_Signature sp)
        then Some ErrInvalidSignature
      else if \<not> (sp_Status sp = ''approved'' \<or> sp_Status sp = ''test'') then Some ErrNotApproved
      else None)"

text \<open>
  A sample executor on the sample host. The state of its host is the list of the commands
  run so far; its one handler, for the action \<open>command\<close>, appends the command to that
  list, fails for the command \<open>fail\<close> and otherwise reports a change.
\<close>

definition sample_handler :: "string list ActionHandler" where
  "sample_handler =
     \<lparr>Supports = [''all''],
      hExecute = (\<lambda>ps vars w.
        case map_of ps ''command'' of
          Some (PStr c) \<Rightarrow>
            if c = ''fail'' then ((None, Some ''exit status 1''), w @ [c])
            else ((Some \<lparr>tr_TaskName = [], tr_TaskID = [], tr_Status = TaskStatusCompleted,
                          tr_Changed = True, tr_Stdout = c, tr_Stderr = [], tr_ExitCode = 0,
                          tr_Error = [], tr_Message = [], tr_ResultMeta = None\<rparr>, None), w @ [c])
        | _ \<Rightarrow> ((None, Some ''command parameter must be a non-empty string''), w))\<rparr>"

definition sample_ctx :: "string list Context" where
  "sample_ctx = \<lparr>ctx_Done = (\<lambda>w. False), ctx_After = (\<lambda>d w. (False, w))\<rparr>"

definition sample_executor :: "string list Executor" where
  "sample_executor =
     \<lparr>e_verifier = sample_key, e_parser = ''linux'',
      e_handlers = [''command'' \<mapsto> sample_handler], e_platform = ''linux'',
      e_deviceID = ''device-1'', e_onProgress = True\<rparr>"

definition sample_sys :: "string list sys" where
  "sample_sys = \<lparr>world = [], handlerCalls = [], progressLog = []\<rparr>"

definition sample_task :: "string \<Rightarrow> string \<Rightarrow> string list \<Rightarrow> Task" where
  "sample_task name cmd notify =
     Task name [] [] [] ''command'' [(''command'', PStr cmd)] [] None False 0 0 notify None"

definition sample_playbook :: "string list \<Rightarrow> Task list \<Rightarrow> Task list \<Rightarrow> ErrorHandler option \<Rightarrow> Playbook" where
  "sample_playbook platforms tasks handlers onError =
     \<lparr>pb_Version = ''1.0'', pb_Name = ''sample'', pb_Description = [], pb_Author = [],
      pb_Platforms = platforms, pb_MinAgentVersion = [], pb_RequiresReboot = False,
      pb_RequiresAdmin = False, pb_Variables = [], pb_Tasks = tasks, pb_Handlers = handlers,
      pb_OnError = onError, pb_OnComplete = None\<rparr>"

text \<open>Sample playbooks, as the sample host decodes them from four texts.\<close>

definition sample_unmarshal :: "string \<Rightarrow> string + Playbook" where
  "sample_unmarshal content =
     (if content = ''windows-only'' then
        Inr (sample_playbook [''windows''] [sample_task ''t1'' ''echo'' []] [] None)
      else if content = ''rollback-strategy'' then
        Inr (sample_playbook [] [sample_task ''t1'' ''fail'' [], sample_task ''t2'' ''echo'' []] []
               (Some \<lparr>eh_Strategy = ''rollback'', eh_NotifyServer = False, eh_Message = []\<rparr>))
      else if content = ''notify-then-fail'' then
        Inr (sample_playbook [] [sample_task ''t1'' ''echo'' [''reload''], sample_task ''t2'' ''fail'' []]
               [sample_task ''reload'' ''reload-it'' []] None)
      else if content = ''notify'' then
        Inr (sample_playbook [] [sample_task ''t1'' ''echo'' [''reload''], sample_task ''t2'' ''echo'' []]
               [sample_task ''other'' ''other-it'' [], sample_task ''reload'' ''reload-it'' []] None)
      else Inl ''yaml: unmarshal errors'')"

text \<open>What an outcome of \<open>Execute\<close> says: its status, and its tasks with their status.\<close>

definition outcomeStatus :: "(ExecutionReport \<times> exec_error option) option \<Rightarrow> string" where
  "outcomeStatus out = (case out of Some (report, err) \<Rightarrow> rep_Status report | None \<Rightarrow> ''panic'')"

definition outcomeTasks :: "(ExecutionReport \<times> exec_error option) option \<Rightarrow> (string \<times> TaskStatus) list" where
  "outcomeTasks out =
     (case out of
        Some (report, err) \<Rightarrow> map (\<lambda>r. (tr_TaskName r, tr_Status r)) (rep_TaskResults report)
      | None \<Rightarrow> [])"

text \<open>
  The handler names that a run of the task loop marks: those in the \<open>notify\<close> list of a
  task whose result is \<open>completed\<close> with \<open>changed\<close> true.
\<close>

definition notifiedBy :: "Task list \<Rightarrow> TaskResult list \<Rightarrow> string set" where
  "notifiedBy tasks results =
     \<Union> (set (map (\<lambda>(task, result).
                      if tr_Status result = TaskStatusCompleted \<and> tr_Changed result
                      then set (t_Notify task) else {})
                 (zip tasks results)))"

text \<open>
  Running the tasks of a list one after the other, each entry once and in the order of
  the list, all with the same variables: their results, or none after a panic, and the
  state that is reached.
\<close>

fun runInOrder :: "'w Executor \<Rightarrow> 'w Context \<Rightarrow> host \<Rightarrow> Task list \<Rightarrow> Variables \<Rightarrow> 'w sys \<Rightarrow> TaskResult list option \<times> 'w sys" where
  "runInOrder e ctx h [] vars s = (Some [], s)"
| "runInOrder e ctx h (task # tasks) vars s =
     (case executeTask e ctx h task vars s of
        (None, s1) \<Rightarrow> (None, s1)
      | (Some result, s1) \<Rightarrow>
          (case runInOrder e ctx h tasks vars s1 of
             (None, s2) \<Rightarrow> (None, s2)
           | (Some results, s2) \<Rightarrow> (Some (result # results), s2)))"

text \<open>
  A sample operating system for the command action: its state is the list of existing
  paths and the list of the commands run so far; every command succeeds.
\<close>

definition sample_os :: "(string list \<times> string list) cmd_os" where
  "sample_os =
     \<lparr>os_Run = (\<lambda>spec w.
        (\<lparr>rr_stdout = ''done '', rr_stderr = [], rr_err = None, rr_deadlineExceeded = False\<rparr>,
         (fst w, snd w @ [last (cs_args spec)]))),
      os_fileExists = (\<lambda>path w. path \<in> set (fst w)),
      os_floatToInt64 = (\<lambda>f. 0)\<rparr>"

text \<open>The child process that \<open>CommandHandler.Execute\<close> starts for given parameters.\<close>

definition commandSpec :: "host \<Rightarrow> 'w cmd_os \<Rightarrow> params \<Rightarrow> string \<Rightarrow> cmd_spec" where
  "commandSpec h os ps cmdStr =
     \<lparr>cs_shell = fst (commandShell h ps), cs_args = snd (commandShell h ps) @ [cmdStr],
      cs_dir = (case getString ps ''chdir'' of Some wd \<Rightarrow> wd | None \<Rightarrow> []),
      cs_timeout = commandTimeout os ps\<rparr>"

section \<open>Operands and short-circuit connectives of the condition grammar\<close>

text \<open>
  A text is trimmed when it is not empty and \<open>TrimSpace\<close> leaves it as it is. A
  plain operand is a trimmed text with no parenthesis in which neither \<open>and\<close> nor
  \<open>or\<close> stands as a word of its own, that is, set between blanks, not even at either end.
\<close>

definition trimmed :: "string \<Rightarrow> bool" where
  "trimmed s = (s \<noteq> [] \<and> TrimSpace s = s)"

definition plainOperand :: "string \<Rightarrow> bool" where
  "plainOperand s =
     (trimmed s \<and> CountByte s CHR ''('' = 0 \<and> CountByte s CHR '')'' = 0
      \<and> \<not> Contains ('' '' @ s @ '' '') '' and '' \<and> \<not> Contains ('' '' @ s @ '' '') '' or '')"

text \<open>
  Disjunction and conjunction of two evaluations that evaluate the right operand only
  when the left one does not decide, and pass an error on.
\<close>

definition orElse :: "eval_error + bool \<Rightarrow> eval_error + bool \<Rightarrow> eval_error + bool" where
  "orElse x y = (case x of Inl err \<Rightarrow> Inl err | Inr a \<Rightarrow> if a then Inr True else y)"

definition andAlso :: "eval_error + bool \<Rightarrow> eval_error + bool \<Rightarrow> eval_error + bool" where
  "andAlso x y = (case x of Inl err \<Rightarrow> Inl err | Inr a \<Rightarrow> if \<not> a then Inr False else y)"

text \<open>
  An operand that none of the cases of \<open>resolveValue\<close> recognises: not quoted, not a
  number, not \<open>platform\<close> or \<open>arch\<close>, without the prefix \<open>env.\<close>, not a property of
  a registered task result, and not a user variable or built-in.
\<close>

definition undefinedOperand :: "host \<Rightarrow> Variables \<Rightarrow> string \<Rightarrow> bool" where
  "undefinedOperand h v ref =
     (\<not> isQuoted ref \<and> ParseFloat h ref = None \<and> ref \<noteq> ''platform'' \<and> ref \<noteq> ''arch''
      \<and> \<not> HasPrefix ref ''env.''
      \<and> (case Cut ref ''.'' of
            Some (taskName, property) \<Rightarrow> GetTaskResult v taskName = None
          | None \<Rightarrow> True)
      \<and> Get v ref = None)"

section \<open>Claims\<close>

text \<open>
  Claim C2. \<open>Verify\<close> returns the error of the first check of the specification's
  pipeline that fails, in the order presence, digest, signature, approval. Its record has
  \<open>all_checks_pass\<close> true exactly when the content, the hash and the signature are
  present, the lower-case hexadecimal SHA-256 of the content equals the given hash as a
  whole string, the signature verifies over the raw digest under the pinned key, and the
  status is \<open>approved\<close> or \<open>test\<close>. When a check fails the record has a
  non-empty failure reason, all checks before the failing one are recorded as passed and
  none from it on.
\<close>

theorem Verify_admission_gate:
  "snd (Verify h key sp) = spec_first_failing_check h key sp
   \<and> (vr_AllChecksPass (fst (Verify h key sp)) \<longleftrightarrow>
        sp_Content sp \<noteq> [] \<and> sp_SHA256Hash sp \<noteq> [] \<and> sp_Signature sp \<noteq> []
        \<and> EncodeToString (Sum256 h (sp_Content sp)) = sp_SHA256Hash sp
        \<and> ed25519_Verify h key (Sum256 h (sp_Content sp)) (sp_Signature sp)
        \<and> (sp_Status sp = ''approved'' \<or> sp_Status sp = ''test''))
   \<and> (vr_AllChecksPass (fst (Verify h key sp)) \<longleftrightarrow> spec_first_failing_check h key sp = None)
   \<and> (spec_first_failing_check h key sp \<noteq> None \<longrightarrow> vr_FailureReason (fst (Verify h key sp)) \<noteq> [])
   \<and> vr_HashVerified (fst (Verify h key sp)) =
        (spec_first_failing_check h key sp \<notin>
           {Some ErrEmptyContent, Some ErrMissingHash, Some ErrMissingSignature, Some ErrHashMismatch})
   \<and> vr_SignatureVerified (fst (Verify h key sp)) =
        (spec_first_failing_check h key sp \<in> {Some ErrNotApproved, None})
   \<and> vr_ApprovalVerified (fst (Verify h key sp)) = (spec_first_failing_check h key sp = None)"
  by (simp add: Verify_def spec_first_failing_check_def Let_def StatusApproved_def StatusTest_def)

theorem Verify_admission_gate_witness:
  "vr_AllChecksPass (fst (Verify (sample_host (\<lambda>c. Inl [])) sample_key (sample_sp ''abc'' ''test'')))
   \<and> snd (Verify (sample_host (\<lambda>c. Inl [])) sample_key (sample_sp ''abc'' ''pending''))
       = Some ErrNotApproved
   \<and> vr_FailureReason (fst (Verify (sample_host (\<lambda>c. Inl [])) sample_key (sample_sp ''abc'' ''pending'')))
       \<noteq> []"
proof -
  let ?h = "sample_host (\<lambda>c. Inl [])"
  have a: "spec_first_failing_check ?h sample_key (sample_sp ''abc'' ''test'') = None"
    by (simp add: spec_first_failing_check_def sample_host_def sample_sp_def sample_Verify_def
          EncodeToString_def sample_Sum256_def hextable_def)
  have b: "spec_first_failing_check ?h sample_key (sample_sp ''abc'' ''pending'')
           = Some ErrNotApproved"
    by (simp add: spec_first_failing_check_def sample_host_def sample_sp_def sample_Verify_def
          EncodeToString_def sample_Sum256_def hextable_def)
  have "vr_AllChecksPass (fst (Verify ?h sample_key (sample_sp ''abc'' ''test'')))"
    using Verify_admission_gate [of ?h sample_key "sample_sp ''abc'' ''test''"] a by blast
  moreover have "snd (Verify ?h sample_key (sample_sp ''abc'' ''pending'')) = Some ErrNotApproved
      \<and> vr_FailureReason (fst (Verify ?h sample_key (sample_sp ''abc'' ''pending''))) \<noteq> []"
    using Verify_admission_gate [of ?h sample_key "sample_sp ''abc'' ''pending''"] b by auto
  ultimately show ?thesis by blast
qed

lemma Verify_pass_iff:
  "vr_AllChecksPass (fst (Verify h key sp)) \<longleftrightarrow> snd (Verify h key sp) = None"
  by (simp add: Verify_def Let_def)

lemma sample_sp_verified:
  "c \<noteq> [] \<Longrightarrow>
   snd (Verify (sample_host u) sample_key (sample_sp c ''approved'')) = None"
  by (simp add: Verify_def Let_def sample_host_def sample_sp_def sample_Verify_def
        StatusApproved_def StatusTest_def sample_Sum256_def EncodeToString_def)

lemma afterTask_Verification:
  "afterTask playbook task result report n = Inl (report', err) \<Longrightarrow>
     rep_Verification report' = rep_Verification report"
  "afterTask playbook task result report n = Inr (report', n') \<Longrightarrow>
     rep_Verification report' = rep_Verification report"
  by (auto simp: afterTask_def Let_def split: TaskStatus.splits if_splits)

lemma taskLoop_Verification:
  "taskLoop e ctx h playbook tasks vars n report s = (out, s') \<Longrightarrow>
     (case out of
        LoopAborted report' err \<Rightarrow> rep_Verification report' = rep_Verification report
      | LoopFinished report' vars' n' \<Rightarrow> rep_Verification report' = rep_Verification report
      | LoopPanicked \<Rightarrow> True)"
proof (induction tasks arbitrary: vars n report s)
  case Nil
  then show ?case by auto
next
  case (Cons task tasks)
  show ?case
  proof (cases "ctx_Done ctx (world s)")
    case True
    with Cons.prems show ?thesis by auto
  next
    case False
    obtain r s1 where ex: "executeTask e ctx h task vars s = (r, s1)"
      by (cases "executeTask e ctx h task vars s")
    show ?thesis
    proof (cases r)
      case None
      with Cons.prems False ex show ?thesis by auto
    next
      case (Some result)
      let ?rep = "report\<lparr>rep_TaskResults := rep_TaskResults report @ [result]\<rparr>"
      show ?thesis
      proof (cases "afterTask playbook task result ?rep n")
        case (Inl a)
        obtain report1 err where a: "a = (report1, err)" by (cases a)
        from afterTask_Verification(1) [of playbook task result ?rep n report1 err] Inl a
        have "rep_Verification report1 = rep_Verification report" by simp
        with Cons.prems False ex Some Inl a show ?thesis by auto
      next
        case (Inr b)
        obtain report1 n1 where b: "b = (report1, n1)" by (cases b)
        from afterTask_Verification(2) [of playbook task result ?rep n report1 n1] Inr b
        have v: "rep_Verification report1 = rep_Verification report" by simp
        from Cons.prems False ex Some Inr b
        have "taskLoop e ctx h playbook tasks
                (if t_Register task \<noteq> [] then SetTaskResult vars (t_Register task) result else vars)
                n1 report1 s1 = (out, s')" by simp
        from Cons.IH [OF this] v show ?thesis by (cases out) auto
      qed
    qed
  qed
qed

lemma runHandlers_Verification:
  "runHandlers e ctx h handlers vars n report s = (Some report', s') \<Longrightarrow>
     rep_Verification report' = rep_Verification report"
proof (induction handlers arbitrary: report s)
  case Nil
  then show ?case by simp
next
  case (Cons handler handlers)
  show ?case
  proof (cases "t_Name handler \<in> n")
    case False
    with Cons show ?thesis by simp
  next
    case True
    obtain r s1 where ex: "executeTask e ctx h handler vars s = (r, s1)"
      by (cases "executeTask e ctx h handler vars s")
    with Cons.prems True obtain result where r: "r = Some result" by (cases r) auto
    from Cons.prems True ex r Cons.IH show ?thesis by fastforce
  qed
qed

lemma simulateTasks_Verification:
  "rep_Verification (simulateTasks e h tasks report) = rep_Verification report"
  by (induction tasks arbitrary: report) (auto split: prod.splits)

lemma Execute_Verification:
  assumes "fst (Execute e ctx h sp s) = Some (report, err)"
  shows "rep_Verification report = fst (Verify h (e_verifier e) sp)"
proof -
  obtain vr ve where v: "Verify h (e_verifier e) sp = (vr, ve)"
    by (cases "Verify h (e_verifier e) sp")
  show ?thesis
  proof (cases ve)
    case (Some verr)
    with assms v show ?thesis by (auto simp: Execute_def)
  next
    case None
    note ve = None
    show ?thesis
    proof (cases "Parse h (e_parser e) (sp_Content sp)")
      case (Inl perr)
      with assms v ve show ?thesis by (auto simp: Execute_def Let_def)
    next
      case (Inr playbook)
      let ?report1 = "(newReport e sp ''pending'')\<lparr>rep_Verification := vr,
                        rep_PlaybookName := pb_Name playbook\<rparr>"
      show ?thesis
      proof (cases "length (pb_Platforms playbook) > 0 \<and> e_platform e \<notin> set (pb_Platforms playbook)")
        case True
        with assms v ve Inr show ?thesis by (auto simp: Execute_def Let_def)
      next
        case False
        let ?rep = "?report1\<lparr>rep_Status := ''running'',
                       rep_TasksTotal := int (length (pb_Tasks playbook))\<rparr>"
        obtain out s1 where tl: "taskLoop e ctx h playbook (pb_Tasks playbook)
                        (SetUserVars h (NewVariables h) (pb_Variables playbook)) {} ?rep s = (out, s1)"
          by (cases "taskLoop e ctx h playbook (pb_Tasks playbook)
                        (SetUserVars h (NewVariables h) (pb_Variables playbook)) {} ?rep s")
        note tv = taskLoop_Verification [OF tl]
        show ?thesis
        proof (cases out)
          case LoopPanicked
          with assms v ve Inr False tl show ?thesis
            by (auto simp: Execute_def Let_def split: if_splits)
        next
          case (LoopAborted report2 err2)
          with assms v ve Inr False tl tv show ?thesis
            by (auto simp: Execute_def Let_def split: if_splits)
        next
          case (LoopFinished report2 vars2 n2)
          obtain r3 s2 where rh: "runHandlers e ctx h (pb_Handlers playbook) vars2 n2 report2 s1 = (r3, s2)"
            by (cases "runHandlers e ctx h (pb_Handlers playbook) vars2 n2 report2 s1")
          show ?thesis
          proof (cases r3)
            case None
            with assms v ve Inr False tl LoopFinished rh show ?thesis
              by (auto simp: Execute_def Let_def split: if_splits)
          next
            case (Some report3)
            with runHandlers_Verification rh have "rep_Verification report3 = rep_Verification report2"
              by blast
            with assms v ve Inr False tl tv LoopFinished rh Some show ?thesis
              by (auto simp: Execute_def Let_def split: if_splits)
          qed
        qed
      qed
    qed
  qed
qed

lemma DryRun_Verification:
  assumes "fst (DryRun e ctx h sp s) = Some (report, err)"
  shows "rep_Verification report = fst (Verify h (e_verifier e) sp)"
proof -
  obtain vr ve where v: "Verify h (e_verifier e) sp = (vr, ve)"
    by (cases "Verify h (e_verifier e) sp")
  show ?thesis
    using assms v
    by (auto simp: DryRun_def Let_def simulateTasks_Verification
             split: option.splits sum.splits if_splits)
qed

lemma rejected_unverified:
  assumes "snd (Verify h (e_verifier e) sp) = Some verr"
  shows "Execute e ctx h sp s =
           (Some ((newReport e sp ''pending'')
                    \<lparr>rep_Verification := fst (Verify h (e_verifier e) sp),
                      rep_Status := ''rejected'',
                      rep_ErrorMessage := ''SECURITY: '' @ verifyErrorText verr\<rparr>,
                  Some (ExecVerifyError verr)), s)"
    and "DryRun e ctx h sp s =
           (Some ((newReport e sp ''dry_run'')
                    \<lparr>rep_Verification := fst (Verify h (e_verifier e) sp),
                      rep_Status := ''rejected'',
                      rep_ErrorMessage := ''SECURITY: '' @ verifyErrorText verr\<rparr>,
                  Some (ExecVerifyError verr)), s)"
  using assms by (cases "Verify h (e_verifier e) sp"; simp add: Execute_def DryRun_def)+

text \<open>
  Claim C1. When the verifier fails any check on a signed playbook, \<open>Execute\<close> and
  \<open>DryRun\<close> both return a report with status \<open>rejected\<close>, whose verification
  field is the verifier's record (with \<open>all_checks_pass\<close> false) and whose list of task
  results is empty, and they leave the host, the progress log and the list of handler calls
  as they were: no handler's \<open>Execute\<close> is called. In any execution, a call of a
  handler or a non-empty list of task results implies that \<open>all_checks_pass\<close> is
  true on the report; a dry run calls no handler at all.
\<close>

theorem unverified_never_dispatched:
  "(\<not> vr_AllChecksPass (fst (Verify h (e_verifier e) sp)) \<longrightarrow>
      (\<exists>report report' err.
         Execute e ctx h sp s = (Some (report, Some err), s)
         \<and> DryRun e ctx h sp s = (Some (report', Some err), s)
         \<and> rep_Status report = ''rejected'' \<and> rep_Status report' = ''rejected''
         \<and> rep_Verification report = fst (Verify h (e_verifier e) sp)
         \<and> rep_Verification report' = fst (Verify h (e_verifier e) sp)
         \<and> rep_TaskResults report = [] \<and> rep_TaskResults report' = []))
   \<and> (handlerCalls (snd (Execute e ctx h sp s)) \<noteq> handlerCalls s \<longrightarrow>
        vr_AllChecksPass (fst (Verify h (e_verifier e) sp)))
   \<and> handlerCalls (snd (DryRun e ctx h sp s)) = handlerCalls s
   \<and> (\<forall>report err. fst (Execute e ctx h sp s) = Some (report, err) \<longrightarrow>
         rep_TaskResults report \<noteq> [] \<longrightarrow> vr_AllChecksPass (rep_Verification report))
   \<and> (\<forall>report err. fst (DryRun e ctx h sp s) = Some (report, err) \<longrightarrow>
         rep_TaskResults report \<noteq> [] \<longrightarrow> vr_AllChecksPass (rep_Verification report))"
proof -
  have A: "\<exists>report report' err.
         Execute e ctx h sp s = (Some (report, Some err), s)
         \<and> DryRun e ctx h sp s = (Some (report', Some err), s)
         \<and> rep_Status report = ''rejected'' \<and> rep_Status report' = ''rejected''
         \<and> rep_Verification report = fst (Verify h (e_verifier e) sp)
         \<and> rep_Verification report' = fst (Verify h (e_verifier e) sp)
         \<and> rep_TaskResults report = [] \<and> rep_TaskResults report' = []"
    if "\<not> vr_AllChecksPass (fst (Verify h (e_verifier e) sp))"
  proof -
    from that obtain verr where "snd (Verify h (e_verifier e) sp) = Some verr"
      using Verify_pass_iff by fastforce
    from rejected_unverified [OF this, of ctx s] show ?thesis
      by (simp add: newReport_def)
  qed
  have B: "vr_AllChecksPass (fst (Verify h (e_verifier e) sp))"
    if "handlerCalls (snd (Execute e ctx h sp s)) \<noteq> handlerCalls s"
    using A that by force
  have C: "handlerCalls (snd (DryRun e ctx h sp s)) = handlerCalls s"
    by (auto simp: DryRun_def Let_def split: prod.splits option.splits sum.splits)
  have D: "vr_AllChecksPass (rep_Verification report)"
    if "fst (Execute e ctx h sp s) = Some (report, err)" "rep_TaskResults report \<noteq> []"
    for report err
    using A that Execute_Verification [OF that(1)] by force
  have E: "vr_AllChecksPass (rep_Verification report)"
    if "fst (DryRun e ctx h sp s) = Some (report, err)" "rep_TaskResults report \<noteq> []"
    for report err
    using A that DryRun_Verification [OF that(1)] by force
  from A B C D E show ?thesis by blast
qed

theorem unverified_never_dispatched_witness:
  "\<not> vr_AllChecksPass (fst (Verify (sample_host (\<lambda>c. Inl [])) (e_verifier sample_executor)
        (sample_sp ''abc'' ''pending'')))
   \<and> (\<exists>report err.
         Execute sample_executor sample_ctx (sample_host (\<lambda>c. Inl [])) (sample_sp ''abc'' ''pending'')
           sample_sys = (Some (report, Some err), sample_sys)
         \<and> rep_Status report = ''rejected'' \<and> rep_TaskResults report = [])"
proof -
  have "snd (Verify (sample_host (\<lambda>c. Inl [])) (e_verifier sample_executor)
          (sample_sp ''abc'' ''pending'')) = Some ErrNotApproved"
    by (simp add: Verify_def Let_def sample_host_def sample_sp_def sample_Verify_def
          sample_executor_def StatusApproved_def StatusTest_def sample_Sum256_def
          EncodeToString_def)
  then have n: "\<not> vr_AllChecksPass (fst (Verify (sample_host (\<lambda>c. Inl []))
        (e_verifier sample_executor) (sample_sp ''abc'' ''pending'')))"
    by (simp add: Verify_pass_iff)
  with unverified_never_dispatched [of "sample_host (\<lambda>c. Inl [])" sample_executor
      "sample_sp ''abc'' ''pending''" sample_ctx sample_sys]
  show ?thesis by blast
qed

lemma firstInvalidPlatform_None:
  "(firstInvalidPlatform ps = None) \<longleftrightarrow> (\<forall>p\<in>set ps. isValidPlatform p)"
  by (induction ps) auto

lemma isPlatformSupported_iff: "isPlatformSupported p ps \<longleftrightarrow> p \<in> set ps"
  by (induction ps) auto

lemma Validate_platforms:
  "Validate p pb0 = Inr pb \<Longrightarrow> pb_Platforms pb = pb_Platforms pb0
     \<and> (pb_Platforms pb0 \<noteq> [] \<longrightarrow> p \<in> set (pb_Platforms pb0))"
  by (auto simp: Validate_def Let_def isPlatformSupported_iff
           split: if_splits option.splits)

lemma Validate_mismatch:
  assumes "pb_Version pb = [] \<or> isSupportedVersion (pb_Version pb)"
    and "pb_Name pb \<noteq> []" and "pb_Tasks pb \<noteq> []" and "pb_Platforms pb \<noteq> []"
    and "\<forall>q\<in>set (pb_Platforms pb). isValidPlatform q" and "p \<notin> set (pb_Platforms pb)"
  shows "Validate p pb = Inl (ValidationError ''platforms''
           (''playbook does not support platform '' @ [CHR 0x27] @ p @ [CHR 0x27]))"
proof -
  have "firstInvalidPlatform (pb_Platforms pb) = None"
    using assms(5) by (simp add: firstInvalidPlatform_None)
  moreover have "isSupportedVersion SchemaVersion"
    by (simp add: isSupportedVersion_def)
  ultimately show ?thesis
    using assms by (auto simp: Validate_def Let_def isPlatformSupported_iff)
qed

lemma afterTask_abort_error:
  "afterTask playbook task result report n = Inl (report', err) \<Longrightarrow> \<exists>msg. err = ExecTaskFailed msg"
  by (auto simp: afterTask_def Let_def split: TaskStatus.splits if_splits)

lemma taskLoop_abort_error:
  "taskLoop e ctx h playbook tasks vars n report s = (LoopAborted report' err, s') \<Longrightarrow>
     err = ExecCancelled \<or> (\<exists>msg. err = ExecTaskFailed msg)"
proof (induction tasks arbitrary: vars n report s)
  case Nil
  then show ?case by simp
next
  case (Cons task tasks)
  show ?case
  proof (cases "ctx_Done ctx (world s)")
    case True
    with Cons.prems show ?thesis by simp
  next
    case False
    obtain r s1 where ex: "executeTask e ctx h task vars s = (r, s1)"
      by (cases "executeTask e ctx h task vars s")
    with Cons.prems False obtain result where r: "r = Some result"
      by (cases r) auto
    let ?rep = "report\<lparr>rep_TaskResults := rep_TaskResults report @ [result]\<rparr>"
    show ?thesis
    proof (cases "afterTask playbook task result ?rep n")
      case (Inl a)
      obtain report1 err1 where a: "a = (report1, err1)" by (cases a)
      with Cons.prems False ex r Inl have "err = err1" by simp
      with afterTask_abort_error Inl a show ?thesis by blast
    next
      case (Inr b)
      obtain report1 n1 where b: "b = (report1, n1)" by (cases b)
      from Cons.prems False ex r Inr b
      have "taskLoop e ctx h playbook tasks
              (if t_Register task \<noteq> [] then SetTaskResult vars (t_Register task) result else vars)
              n1 report1 s1 = (LoopAborted report' err, s')" by simp
      from Cons.IH [OF this] show ?thesis .
    qed
  qed
qed

text \<open>
  Claim C3. The claim asks for status \<open>rejected\<close> when a verified playbook lists
  platforms without the host's. On the code this does not happen: \<open>Execute\<close> parses
  before its own platform check, \<open>Parse\<close> validates, and \<open>Validate\<close> refuses such a
  playbook, so that the report has status \<open>failed\<close> with a parse error; no task is
  dispatched, the task results are empty and \<open>all_checks_pass\<close> is true. When the
  parser's platform is the executor's, as \<open>NewExecutor\<close> makes them on every supported
  system, the platform check of \<open>Execute\<close>, which would answer \<open>rejected\<close>, is never
  reached with a mismatch.
\<close>

theorem platform_mismatch_reported_failed:
  "(e_parser e = e_platform e \<longrightarrow>
      (\<forall>report s'. Execute e ctx h sp s \<noteq> (Some (report, Some ErrPlatformMismatch), s')))
   \<and> (snd (Verify h (e_verifier e) sp) = None \<longrightarrow>
        Unmarshal h (sp_Content sp) = Inr pb \<longrightarrow>
        (pb_Version pb = [] \<or> isSupportedVersion (pb_Version pb)) \<longrightarrow>
        pb_Name pb \<noteq> [] \<longrightarrow> pb_Tasks pb \<noteq> [] \<longrightarrow> pb_Platforms pb \<noteq> [] \<longrightarrow>
        (\<forall>q\<in>set (pb_Platforms pb). isValidPlatform q) \<longrightarrow>
        e_parser e \<notin> set (pb_Platforms pb) \<longrightarrow>
        (\<exists>report.
           Execute e ctx h sp s =
             (Some (report, Some (ExecParseError (ValidationError ''platforms''
                (''playbook does not support platform '' @ [CHR 0x27] @ e_parser e @ [CHR 0x27])))), s)
           \<and> rep_Status report = ''failed''
           \<and> rep_TaskResults report = []
           \<and> vr_AllChecksPass (rep_Verification report)))"
proof (intro conjI impI allI)
  fix report s'
  assume eq: "e_parser e = e_platform e"
  show "Execute e ctx h sp s \<noteq> (Some (report, Some ErrPlatformMismatch), s')"
  proof
    assume ex: "Execute e ctx h sp s = (Some (report, Some ErrPlatformMismatch), s')"
    obtain vr ve where v: "Verify h (e_verifier e) sp = (vr, ve)"
      by (cases "Verify h (e_verifier e) sp")
    show False
    proof (cases ve)
      case (Some verr)
      with ex v show ?thesis by (simp add: Execute_def)
    next
      case None
      note ve = None
      show ?thesis
      proof (cases "Parse h (e_parser e) (sp_Content sp)")
        case (Inl perr)
        with ex v ve show ?thesis by (simp add: Execute_def Let_def)
      next
        case (Inr playbook)
        then obtain pb0 where "Validate (e_parser e) pb0 = Inr playbook"
          by (auto simp: Parse_def split: sum.splits)
        from Validate_platforms [OF this] eq
        have ok: "\<not> (length (pb_Platforms playbook) > 0
                     \<and> e_platform e \<notin> set (pb_Platforms playbook))"
          by auto
        obtain out s1 where tl: "taskLoop e ctx h playbook (pb_Tasks playbook)
            (SetUserVars h (NewVariables h) (pb_Variables playbook)) {}
            ((newReport e sp ''pending'')\<lparr>rep_Verification := vr, rep_PlaybookName := pb_Name playbook,
               rep_Status := ''running'', rep_TasksTotal := int (length (pb_Tasks playbook))\<rparr>) s
            = (out, s1)"
          by (cases "taskLoop e ctx h playbook (pb_Tasks playbook)
            (SetUserVars h (NewVariables h) (pb_Variables playbook)) {}
            ((newReport e sp ''pending'')\<lparr>rep_Verification := vr, rep_PlaybookName := pb_Name playbook,
               rep_Status := ''running'', rep_TasksTotal := int (length (pb_Tasks playbook))\<rparr>) s")
        have ne: "err \<noteq> ErrPlatformMismatch" if "out = LoopAborted r err" for r err
          using taskLoop_abort_error [of e ctx h playbook "pb_Tasks playbook" _ _ _ s r err s1]
            tl that by auto
        from ex v ve Inr ok tl ne show ?thesis
          by (auto simp: Execute_def Let_def split: if_splits loop_result.splits prod.splits option.splits)
      qed
    qed
  qed
next
  assume a: "snd (Verify h (e_verifier e) sp) = None" "Unmarshal h (sp_Content sp) = Inr pb"
    "pb_Version pb = [] \<or> isSupportedVersion (pb_Version pb)" "pb_Name pb \<noteq> []"
    "pb_Tasks pb \<noteq> []" "pb_Platforms pb \<noteq> []" "\<forall>q\<in>set (pb_Platforms pb). isValidPlatform q"
    "e_parser e \<notin> set (pb_Platforms pb)"
  from Validate_mismatch [OF a(3) a(4) a(5) a(6) a(7) a(8)] a(2)
  have p: "Parse h (e_parser e) (sp_Content sp) = Inl (ValidationError ''platforms''
           (''playbook does not support platform '' @ [CHR 0x27] @ e_parser e @ [CHR 0x27]))"
    by (simp add: Parse_def)
  obtain vr where v: "Verify h (e_verifier e) sp = (vr, None)"
    using a(1) by (cases "Verify h (e_verifier e) sp") auto
  then have "vr_AllChecksPass vr"
    using Verify_pass_iff [of h "e_verifier e" sp] by simp
  with p v show "\<exists>report.
           Execute e ctx h sp s =
             (Some (report, Some (ExecParseError (ValidationError ''platforms''
                (''playbook does not support platform '' @ [CHR 0x27] @ e_parser e @ [CHR 0x27])))), s)
           \<and> rep_Status report = ''failed''
           \<and> rep_TaskResults report = []
           \<and> vr_AllChecksPass (rep_Verification report)"
    by (simp add: Execute_def Let_def newReport_def)
qed

theorem platform_mismatch_reported_failed_witness:
  "\<exists>report.
     Execute sample_executor sample_ctx (sample_host sample_unmarshal)
       (sample_sp ''windows-only'' ''approved'') sample_sys
     = (Some (report, Some (ExecParseError (ValidationError ''platforms''
          (''playbook does not support platform '' @ [CHR 0x27] @ ''linux'' @ [CHR 0x27])))),
        sample_sys)
     \<and> rep_Status report = ''failed'' \<and> rep_TaskResults report = []
     \<and> vr_AllChecksPass (rep_Verification report)"
proof -
  let ?h = "sample_host sample_unmarshal"
  let ?sp = "sample_sp ''windows-only'' ''approved''"
  let ?pb = "sample_playbook [''windows''] [sample_task ''t1'' ''echo'' []] [] None"
  have 1: "snd (Verify ?h (e_verifier sample_executor) ?sp) = None"
    using sample_sp_verified [of "''windows-only''" sample_unmarshal]
    by (simp add: sample_executor_def)
  have 2: "Unmarshal ?h (sp_Content ?sp) = Inr ?pb"
    by (simp add: sample_host_def sample_sp_def sample_unmarshal_def)
  have 3: "pb_Version ?pb = [] \<or> isSupportedVersion (pb_Version ?pb)"
    by (simp add: sample_playbook_def isSupportedVersion_def)
  have 4: "pb_Name ?pb \<noteq> []" "pb_Tasks ?pb \<noteq> []" "pb_Platforms ?pb \<noteq> []"
    by (simp_all add: sample_playbook_def)
  have 5: "\<forall>q\<in>set (pb_Platforms ?pb). isValidPlatform q"
    by (simp add: sample_playbook_def isValidPlatform_def PlatformWindows_def)
  have 6: "e_parser sample_executor \<notin> set (pb_Platforms ?pb)"
    by (simp add: sample_playbook_def sample_executor_def)
  from platform_mismatch_reported_failed [where e = sample_executor and ctx = sample_ctx
      and h = ?h and sp = ?sp and s = sample_sys and pb = ?pb] 1 2 3 4 5 6
  show ?thesis by (simp add: sample_executor_def)
qed

lemmas sample_defs = sample_task_def sample_executor_def sample_handler_def sample_ctx_def
  sample_sys_def sample_host_def sample_playbook_def sample_unmarshal_def sample_sp_def

lemmas exec_defs = executeTask.simps preflight_def checkCondition_def newResult_def
  Substitute_def resolveEnvVars_def matchEnv_def matchVar_def maxAttempts_def progress_def
  afterTask_def SetTaskResult_def

lemmas parse_defs = Parse_def Validate_def validateTask_def validateActionPlatform_def
  validateActionParams_def requireParam_def hasKey_def isValidAction_def isSupportedVersion_def
  isValidPlatform_def SchemaVersion_def ActionCommand_def ActionFile_def ActionLineinfile_def
  ActionEnv_def ActionService_def ActionRegistry_def ActionSysctl_def ActionDefaults_def
  ActionSettings_def ActionPackage_def PlatformWindows_def PlatformLinux_def PlatformDarwin_def
  PlatformAndroid_def

lemmas verify_defs = Verify_def StatusApproved_def StatusTest_def sample_Verify_def
  sample_Sum256_def EncodeToString_def

text \<open>
  Claim C6, as amended. When a task of the loop ends with status \<open>failed\<close> and its
  \<open>ignore_errors\<close> is false, the loop aborts, with report status \<open>failed\<close>, when the
  playbook has no \<open>on_error\<close> or its strategy is \<open>stop\<close>; for every other value of the
  strategy (\<open>continue\<close>, and also \<open>rollback\<close> and the empty string) the loop counts
  the failure and goes on with the next task.
\<close>

theorem failed_task_aborts_iff_stop:
  assumes "executeTask e ctx h task vars s = (Some result, s1)"
    and "tr_Status result = TaskStatusFailed"
    and "\<not> t_IgnoreErrors task"
    and "\<not> ctx_Done ctx (world s)"
  shows "taskLoop e ctx h pb (task # tasks) vars n report s =
     (if pb_OnError pb = None \<or> map_option eh_Strategy (pb_OnError pb) = Some ''stop'' then
        (LoopAborted
           (report\<lparr>rep_TaskResults := rep_TaskResults report @ [result],
                   rep_TasksFailed := rep_TasksFailed report + 1,
                   rep_Status := ''failed'', rep_ErrorMessage := tr_Error result\<rparr>)
           (ExecTaskFailed (''task '' @ [CHR 0x27] @ t_Name task @ [CHR 0x27] @ '' failed: ''
                             @ tr_Error result)), s1)
      else
        taskLoop e ctx h pb tasks
          (if t_Register task \<noteq> [] then SetTaskResult vars (t_Register task) result else vars) n
          (report\<lparr>rep_TaskResults := rep_TaskResults report @ [result],
                  rep_TasksFailed := rep_TasksFailed report + 1\<rparr>) s1)"
  using assms by (cases "pb_OnError pb") (simp_all add: afterTask_def Let_def)

theorem failed_task_aborts_iff_stop_witness:
  "tr_Status (the (fst (executeTask sample_executor sample_ctx (sample_host sample_unmarshal)
       (sample_task ''t1'' ''fail'' []) (NewVariables (sample_host sample_unmarshal)) sample_sys)))
     = TaskStatusFailed
   \<and> \<not> t_IgnoreErrors (sample_task ''t1'' ''fail'' [])
   \<and> \<not> ctx_Done sample_ctx (world sample_sys)
   \<and> (\<exists>report' s'.
        taskLoop sample_executor sample_ctx (sample_host sample_unmarshal)
          (sample_playbook [] [sample_task ''t1'' ''fail'' [], sample_task ''t2'' ''echo'' []] [] None)
          [sample_task ''t1'' ''fail'' [], sample_task ''t2'' ''echo'' []]
          (NewVariables (sample_host sample_unmarshal)) {}
          (newReport sample_executor (sample_sp ''x'' ''approved'') ''running'') sample_sys
        = (LoopAborted report' (ExecTaskFailed (''task '' @ [CHR 0x27] @ ''t1'' @ [CHR 0x27]
                                  @ '' failed: exit status 1'')), s')
        \<and> rep_Status report' = ''failed'' \<and> world s' = [''fail''])"
proof -
  let ?h = "sample_host sample_unmarshal"
  let ?r = "\<lparr>tr_TaskName = ''t1'', tr_TaskID = [], tr_Status = TaskStatusFailed, tr_Changed = False,
      tr_Stdout = [], tr_Stderr = [], tr_ExitCode = 0, tr_Error = ''exit status 1'', tr_Message = [],
      tr_ResultMeta = None\<rparr>"
  let ?s1 = "\<lparr>world = [''fail''], handlerCalls = [(''command'', [(''command'', PStr ''fail'')])],
      progressLog = [(''t1'', TaskStatusRunning), (''t1'', TaskStatusFailed)]\<rparr>"
  have 1: "executeTask sample_executor sample_ctx ?h (sample_task ''t1'' ''fail'' [])
             (NewVariables ?h) sample_sys = (Some ?r, ?s1)"
    by (simp add: sample_defs exec_defs)
  have 2: "tr_Status ?r = TaskStatusFailed" by simp
  have 3: "\<not> t_IgnoreErrors (sample_task ''t1'' ''fail'' [])" by (simp add: sample_task_def)
  have 4: "\<not> ctx_Done sample_ctx (world sample_sys)" by (simp add: sample_ctx_def)
  from failed_task_aborts_iff_stop [OF 1 2 3 4,
      of "sample_playbook [] [sample_task ''t1'' ''fail'' [], sample_task ''t2'' ''echo'' []] [] None"
         "[sample_task ''t2'' ''echo'' []]" "{}"
         "newReport sample_executor (sample_sp ''x'' ''approved'') ''running''"]
  have "\<exists>report' s'.
        taskLoop sample_executor sample_ctx ?h
          (sample_playbook [] [sample_task ''t1'' ''fail'' [], sample_task ''t2'' ''echo'' []] [] None)
          [sample_task ''t1'' ''fail'' [], sample_task ''t2'' ''echo'' []]
          (NewVariables ?h) {}
          (newReport sample_executor (sample_sp ''x'' ''approved'') ''running'') sample_sys
        = (LoopAborted report' (ExecTaskFailed (''task '' @ [CHR 0x27] @ ''t1'' @ [CHR 0x27]
                                  @ '' failed: exit status 1'')), s')
        \<and> rep_Status report' = ''failed'' \<and> world s' = [''fail'']"
    by (simp add: sample_playbook_def sample_task_def)
  with 1 3 4 show ?thesis by simp
qed

theorem rollback_strategy_continues_counterexample:
  "outcomeStatus (fst (Execute sample_executor sample_ctx (sample_host sample_unmarshal)
          (sample_sp ''rollback-strategy'' ''approved'') sample_sys)) = ''completed''
   \<and> outcomeTasks (fst (Execute sample_executor sample_ctx (sample_host sample_unmarshal)
          (sample_sp ''rollback-strategy'' ''approved'') sample_sys))
       = [(''t1'', TaskStatusFailed), (''t2'', TaskStatusCompleted)]
   \<and> world (snd (Execute sample_executor sample_ctx (sample_host sample_unmarshal)
          (sample_sp ''rollback-strategy'' ''approved'') sample_sys)) = [''fail'', ''echo'']"
  by (simp add: Execute_def Let_def outcomeStatus_def outcomeTasks_def newReport_def
        sample_defs exec_defs parse_defs verify_defs NewVariables_def)

lemma executeTask_Early:
  "preflight e h task vars (newResult task) = Early r \<Longrightarrow>
   executeTask e ctx h task vars s = (Some r, progress e (t_Name task) TaskStatusRunning s)"
  by (subst executeTask.simps) simp

text \<open>
  Claim C8. The claim asks for one \<open>running\<close> and one terminal notification for every
  task. On the code a task that ends before the retry loop gets the \<open>running\<close>
  notification only: with a callback configured, whenever the part of \<open>executeTask\<close>
  before the retry loop ends the task (a platform filter that does not match, a false or
  failing condition, a missing handler, an unsupported platform, a failing substitution),
  the progress log grows by exactly \<open>(task, running)\<close>. A platform filter other than
  the host's gives such an end with status \<open>skipped\<close>, and a missing handler, for a task
  without filter and condition, one with status \<open>failed\<close>.
\<close>

theorem early_end_notifies_running_only:
  "e_onProgress e \<longrightarrow>
     (preflight e h task vars (newResult task) = Early r \<longrightarrow>
        executeTask e ctx h task vars s =
          (Some r, s\<lparr>progressLog := progressLog s @ [(t_Name task, TaskStatusRunning)]\<rparr>))
     \<and> (t_Platform task \<noteq> [] \<and> t_Platform task \<noteq> e_platform e \<longrightarrow>
          (\<exists>r'. tr_Status r' = TaskStatusSkipped
             \<and> executeTask e ctx h task vars s =
                 (Some r', s\<lparr>progressLog := progressLog s @ [(t_Name task, TaskStatusRunning)]\<rparr>)))
     \<and> (t_Platform task = [] \<and> t_When task = [] \<and> e_handlers e (t_Action task) = None \<longrightarrow>
          (\<exists>r'. tr_Status r' = TaskStatusFailed
             \<and> executeTask e ctx h task vars s =
                 (Some r', s\<lparr>progressLog := progressLog s @ [(t_Name task, TaskStatusRunning)]\<rparr>)))"
proof (intro impI conjI)
  assume p: "e_onProgress e"
  show "executeTask e ctx h task vars s =
          (Some r, s\<lparr>progressLog := progressLog s @ [(t_Name task, TaskStatusRunning)]\<rparr>)"
    if "preflight e h task vars (newResult task) = Early r"
    using executeTask_Early [OF that] p by (simp add: progress_def)
  show "\<exists>r'. tr_Status r' = TaskStatusSkipped
             \<and> executeTask e ctx h task vars s =
                 (Some r', s\<lparr>progressLog := progressLog s @ [(t_Name task, TaskStatusRunning)]\<rparr>)"
    if "t_Platform task \<noteq> [] \<and> t_Platform task \<noteq> e_platform e"
  proof -
    from that obtain r' where "preflight e h task vars (newResult task) = Early r'"
      and "tr_Status r' = TaskStatusSkipped"
      by (simp add: preflight_def)
    with executeTask_Early [of e h task vars r' ctx s] p show ?thesis
      by (auto simp: progress_def)
  qed
  show "\<exists>r'. tr_Status r' = TaskStatusFailed
             \<and> executeTask e ctx h task vars s =
                 (Some r', s\<lparr>progressLog := progressLog s @ [(t_Name task, TaskStatusRunning)]\<rparr>)"
    if "t_Platform task = [] \<and> t_When task = [] \<and> e_handlers e (t_Action task) = None"
  proof -
    from that obtain r' where "preflight e h task vars (newResult task) = Early r'"
      and "tr_Status r' = TaskStatusFailed"
      by (simp add: preflight_def checkCondition_def)
    with executeTask_Early [of e h task vars r' ctx s] p show ?thesis
      by (auto simp: progress_def)
  qed
qed

theorem early_end_notifies_running_only_witness:
  "e_onProgress sample_executor
   \<and> t_Platform (Task ''t1'' [] ''windows'' [] ''command'' [(''command'', PStr ''echo'')] [] None
         False 0 0 [] None) \<noteq> e_platform sample_executor
   \<and> (\<exists>r'. tr_Status r' = TaskStatusSkipped
         \<and> executeTask sample_executor sample_ctx (sample_host sample_unmarshal)
              (Task ''t1'' [] ''windows'' [] ''command'' [(''command'', PStr ''echo'')] [] None
                 False 0 0 [] None)
              (NewVariables (sample_host sample_unmarshal)) sample_sys
            = (Some r', \<lparr>world = [], handlerCalls = [],
                         progressLog = [(''t1'', TaskStatusRunning)]\<rparr>))"
proof -
  let ?t = "Task ''t1'' [] ''windows'' [] ''command'' [(''command'', PStr ''echo'')] [] None
         False 0 0 [] None"
  have 1: "e_onProgress sample_executor" by (simp add: sample_executor_def)
  have 2: "t_Platform ?t \<noteq> [] \<and> t_Platform ?t \<noteq> e_platform sample_executor"
    by (simp add: sample_executor_def)
  from early_end_notifies_running_only [of sample_executor "sample_host sample_unmarshal" ?t
      "NewVariables (sample_host sample_unmarshal)" _ sample_ctx sample_sys] 1 2
  have "\<exists>r'. tr_Status r' = TaskStatusSkipped
         \<and> executeTask sample_executor sample_ctx (sample_host sample_unmarshal) ?t
              (NewVariables (sample_host sample_unmarshal)) sample_sys
            = (Some r', sample_sys\<lparr>progressLog := progressLog sample_sys @ [(t_Name ?t, TaskStatusRunning)]\<rparr>)"
    by blast
  then show ?thesis using 1 2 by (simp add: sample_sys_def)
qed

lemma preflight_Early_name:
  "preflight e h task vars result = Early r \<Longrightarrow> tr_TaskName r = tr_TaskName result"
  by (auto simp: preflight_def checkCondition_def
           split: if_splits option.splits sum.splits eval_error.splits)

lemma retryLoop_name:
  "retryLoop ctx handler ps vars task remaining result lastErr s = (out, s') \<Longrightarrow>
     (case out of
        Succeeded r \<Rightarrow> tr_TaskName r = tr_TaskName result
      | Cancelled r \<Rightarrow> tr_TaskName r = tr_TaskName result
      | Exhausted r err \<Rightarrow> tr_TaskName r = tr_TaskName result)"
proof (induction remaining arbitrary: result lastErr s)
  case 0
  then show ?case by auto
next
  case (Suc remaining)
  obtain execResult execErr w1 where hx: "hExecute handler ps vars (world s) = ((execResult, execErr), w1)"
    by (cases "hExecute handler ps vars (world s)") auto
  show ?case
  proof (cases "execErr = None \<and> execResult \<noteq> None")
    case True
    with Suc.prems hx show ?thesis by (auto simp: Let_def)
  next
    case False
    define result2 where "result2 = (case execResult of
         Some r \<Rightarrow> result\<lparr>tr_Status := TaskStatusRunning, tr_Stdout := tr_Stdout r,
                            tr_Stderr := tr_Stderr r, tr_ExitCode := tr_ExitCode r\<rparr>
       | None \<Rightarrow> result\<lparr>tr_Status := TaskStatusRunning\<rparr>)"
    have n2: "tr_TaskName result2 = tr_TaskName result"
      by (simp add: result2_def split: option.splits)
    define s1 where "s1 = s\<lparr>world := w1, handlerCalls := handlerCalls s @ [(t_Action task, ps)]\<rparr>"
    show ?thesis
    proof (cases "0 < remaining \<and> 0 < sint (t_RetryDelay task)")
      case delay: True
      obtain cancelled w2 where af: "ctx_After ctx (t_RetryDelay task * 1000000000) (world s1) = (cancelled, w2)"
        by (cases "ctx_After ctx (t_RetryDelay task * 1000000000) (world s1)")
      show ?thesis
      proof (cases cancelled)
        case True
        with Suc.prems hx False delay af n2 show ?thesis
          by (auto simp: Let_def result2_def s1_def split: option.splits)
      next
        case nc: False
        from Suc.prems hx False delay af nc
        have "retryLoop ctx handler ps vars task remaining result2 execErr (s1\<lparr>world := w2\<rparr>) = (out, s')"
          by (auto simp: Let_def result2_def s1_def split: option.splits)
        from Suc.IH [OF this] n2 show ?thesis by (cases out) auto
      qed
    next
      case nodelay: False
      from Suc.prems hx False nodelay
      have "retryLoop ctx handler ps vars task remaining result2 execErr s1 = (out, s')"
        by (auto simp: Let_def result2_def s1_def split: option.splits)
      from Suc.IH [OF this] n2 show ?thesis by (cases out) auto
    qed
  qed
qed

lemma executeTask_name:
  "executeTask e ctx h task vars s = (Some r, s') \<Longrightarrow> tr_TaskName r = t_Name task"
proof -
  assume ex: "executeTask e ctx h task vars s = (Some r, s')"
  show ?thesis
  proof (cases "preflight e h task vars (newResult task)")
    case (Early r0)
    with ex have "r = r0" by (subst (asm) executeTask.simps) simp
    with preflight_Early_name [OF Early] show ?thesis by (simp add: newResult_def)
  next
    case Panicked
    with ex show ?thesis by (subst (asm) executeTask.simps) simp
  next
    case (Ready handler ps)
    obtain out s1 where rl: "retryLoop ctx handler ps vars task (maxAttempts task) (newResult task) None
        (progress e (t_Name task) TaskStatusRunning s) = (out, s1)"
      by (cases "retryLoop ctx handler ps vars task (maxAttempts task) (newResult task) None
        (progress e (t_Name task) TaskStatusRunning s)")
    note nm = retryLoop_name [OF rl]
    from ex Ready rl nm show ?thesis
      by (subst (asm) executeTask.simps)
         (auto simp: Let_def newResult_def split: retry_outcome.splits option.splits prod.splits
               if_splits)
  qed
qed

lemma afterTask_continue:
  "afterTask playbook task result report n = Inr (report', n') \<Longrightarrow>
     rep_TaskResults report' = rep_TaskResults report
     \<and> n' = n \<union> (if tr_Status result = TaskStatusCompleted \<and> tr_Changed result
                    then set (t_Notify task) else {})"
  by (auto simp: afterTask_def Let_def split: TaskStatus.splits if_splits)

lemma notifiedBy_Cons:
  "notifiedBy (task # tasks) (result # results) =
     (if tr_Status result = TaskStatusCompleted \<and> tr_Changed result then set (t_Notify task) else {})
     \<union> notifiedBy tasks results"
  by (simp add: notifiedBy_def)

lemma taskLoop_results:
  "taskLoop e ctx h playbook tasks vars n report s = (LoopFinished report' vars' n', s') \<Longrightarrow>
     \<exists>results. rep_TaskResults report' = rep_TaskResults report @ results
       \<and> map tr_TaskName results = map t_Name tasks
       \<and> n' = n \<union> notifiedBy tasks results"
proof (induction tasks arbitrary: vars n report s)
  case Nil
  then show ?case by (simp add: notifiedBy_def)
next
  case (Cons task tasks)
  from Cons.prems have nd: "\<not> ctx_Done ctx (world s)" by (auto split: if_splits)
  obtain r s1 where ex: "executeTask e ctx h task vars s = (r, s1)"
    by (cases "executeTask e ctx h task vars s")
  with Cons.prems nd obtain result where r: "r = Some result" by (cases r) auto
  let ?rep = "report\<lparr>rep_TaskResults := rep_TaskResults report @ [result]\<rparr>"
  from Cons.prems nd ex r obtain report1 n1 where
    at: "afterTask playbook task result ?rep n = Inr (report1, n1)"
    by (cases "afterTask playbook task result ?rep n") auto
  from Cons.prems nd ex r at
  have "taskLoop e ctx h playbook tasks
          (if t_Register task \<noteq> [] then SetTaskResult vars (t_Register task) result else vars)
          n1 report1 s1 = (LoopFinished report' vars' n', s')" by simp
  from Cons.IH [OF this] obtain results where
    res: "rep_TaskResults report' = rep_TaskResults report1 @ results"
      "map tr_TaskName results = map t_Name tasks" "n' = n1 \<union> notifiedBy tasks results"
    by blast
  from afterTask_continue [OF at]
  have a: "rep_TaskResults report1 = rep_TaskResults report @ [result]"
    "n1 = n \<union> (if tr_Status result = TaskStatusCompleted \<and> tr_Changed result
                    then set (t_Notify task) else {})" by simp_all
  from executeTask_name ex r have nm: "tr_TaskName result = t_Name task" by blast
  have "rep_TaskResults report' = rep_TaskResults report @ (result # results)"
    using res(1) a(1) by simp
  moreover have "map tr_TaskName (result # results) = map t_Name (task # tasks)"
    using res(2) nm by simp
  moreover have "n' = n \<union> notifiedBy (task # tasks) (result # results)"
    using res(3) a(2) by (simp only: notifiedBy_Cons) blast
  ultimately show ?case by blast
qed

lemma runInOrder_names:
  "runInOrder e ctx h tasks vars s = (Some results, s') \<Longrightarrow>
     map tr_TaskName results = map t_Name tasks"
proof (induction tasks arbitrary: s results)
  case Nil
  then show ?case by simp
next
  case (Cons task tasks)
  obtain r s1 where ex: "executeTask e ctx h task vars s = (r, s1)"
    by (cases "executeTask e ctx h task vars s")
  with Cons.prems obtain result where r: "r = Some result" by (cases r) auto
  obtain rs s2 where ro: "runInOrder e ctx h tasks vars s1 = (rs, s2)"
    by (cases "runInOrder e ctx h tasks vars s1")
  with Cons.prems ex r obtain results' where rs: "rs = Some results'" by (cases rs) auto
  from Cons.prems ex r ro rs have res: "results = result # results'" and "s2 = s'" by auto
  from Cons.IH [of s1 results'] ro rs \<open>s2 = s'\<close>
  have "map tr_TaskName results' = map t_Name tasks" by simp
  moreover from executeTask_name ex r have "tr_TaskName result = t_Name task" by blast
  ultimately show ?case using res by simp
qed

lemma runHandlers_runInOrder:
  "runInOrder e ctx h (filter (\<lambda>handler. t_Name handler \<in> n) handlers) vars s = (out, s2) \<Longrightarrow>
     (case out of
        None \<Rightarrow> runHandlers e ctx h handlers vars n report s = (None, s2)
      | Some hresults \<Rightarrow>
          (\<exists>report'. runHandlers e ctx h handlers vars n report s = (Some report', s2)
             \<and> rep_TaskResults report' = rep_TaskResults report @ hresults))"
proof (induction handlers arbitrary: report s out s2)
  case Nil
  then show ?case by auto
next
  case (Cons handler handlers)
  show ?case
  proof (cases "t_Name handler \<in> n")
    case False
    with Cons.prems have "runInOrder e ctx h (filter (\<lambda>handler. t_Name handler \<in> n) handlers) vars s = (out, s2)"
      by simp
    from Cons.IH [OF this, of report] False show ?thesis by (cases out) simp_all
  next
    case True
    obtain r s1 where ex: "executeTask e ctx h handler vars s = (r, s1)"
      by (cases "executeTask e ctx h handler vars s")
    show ?thesis
    proof (cases r)
      case None
      with Cons.prems True ex show ?thesis by simp
    next
      case (Some result)
      let ?rep = "(report\<lparr>rep_TaskResults := rep_TaskResults report @ [result]\<rparr>)
                  \<lparr>rep_TasksFailed :=
                     (if tr_Status result = TaskStatusFailed \<and> \<not> t_IgnoreErrors handler
                      then rep_TasksFailed report + 1 else rep_TasksFailed report)\<rparr>"
      obtain rs s3 where ro: "runInOrder e ctx h (filter (\<lambda>handler. t_Name handler \<in> n) handlers) vars s1 = (rs, s3)"
        by (cases "runInOrder e ctx h (filter (\<lambda>handler. t_Name handler \<in> n) handlers) vars s1")
      note ih = Cons.IH [OF ro, of ?rep]
      have rh: "runHandlers e ctx h (handler # handlers) vars n report s
                  = runHandlers e ctx h handlers vars n ?rep s1"
        using True ex Some by simp
      show ?thesis
      proof (cases rs)
        case None
        with Cons.prems True ex Some ro have "out = None" "s3 = s2" by auto
        with ih None rh show ?thesis by simp
      next
        case inner: (Some results)
        with Cons.prems True ex Some ro have o: "out = Some (result # results)" "s3 = s2" by auto
        from ih inner obtain report' where
          r': "runHandlers e ctx h handlers vars n ?rep s1 = (Some report', s3)"
            "rep_TaskResults report' = rep_TaskResults ?rep @ results"
          by auto
        from r' rh o show ?thesis by simp
      qed
    qed
  qed
qed

text \<open>
  Claim C7, as amended. Take a signed playbook that passes verification, parses to a
  playbook and is not rejected for its platform, and let the task loop of \<open>Execute\<close>
  end in the state \<open>s1\<close>. If the loop finished, its results are those of the tasks in
  order, the set of notified handlers is exactly the set of names in the \<open>notify\<close> list of
  a task that completed with \<open>changed\<close> true, and what \<open>Execute\<close> does after the loop is
  to run, from \<open>s1\<close>, the entries of the \<open>handlers\<close> list whose name is notified, each
  entry once and in the textual order of the list, and no other entry: the state it
  returns is the state so reached, the report has status \<open>completed\<close>, and its results are
  those of the loop followed by those of the handlers that ran. So a handler named N ran
  if and only if at least one such task notifies N. If the loop aborted, for a failed
  task or a cancellation, \<open>Execute\<close> returns the loop's report and error in the state
  \<open>s1\<close>: no handler ran, notified or not.
\<close>

theorem notified_handlers_run_after_loop:
  assumes v: "snd (Verify h (e_verifier e) sp) = None"
    and p: "Parse h (e_parser e) (sp_Content sp) = Inr pb"
    and pl: "pb_Platforms pb = [] \<or> e_platform e \<in> set (pb_Platforms pb)"
  shows "case taskLoop e ctx h pb (pb_Tasks pb)
                (SetUserVars h (NewVariables h) (pb_Variables pb)) {}
                ((newReport e sp ''pending'')
                   \<lparr>rep_Verification := fst (Verify h (e_verifier e) sp),
                    rep_PlaybookName := pb_Name pb, rep_Status := ''running'',
                    rep_TasksTotal := int (length (pb_Tasks pb))\<rparr>) s of
           (LoopFinished report2 vars2 n2, s1) \<Rightarrow>
             map tr_TaskName (rep_TaskResults report2) = map t_Name (pb_Tasks pb)
             \<and> n2 = notifiedBy (pb_Tasks pb) (rep_TaskResults report2)
             \<and> (case runInOrder e ctx h
                        (filter (\<lambda>handler. t_Name handler \<in> n2) (pb_Handlers pb)) vars2 s1 of
                  (Some hresults, s2) \<Rightarrow>
                    (\<exists>report. Execute e ctx h sp s = (Some (report, None), s2)
                       \<and> rep_Status report = ''completed''
                       \<and> rep_TaskResults report = rep_TaskResults report2 @ hresults)
                    \<and> map tr_TaskName hresults
                        = map t_Name (filter (\<lambda>handler. t_Name handler \<in> n2) (pb_Handlers pb))
                | (None, s2) \<Rightarrow> Execute e ctx h sp s = (None, s2))
         | (LoopAborted report2 err, s1) \<Rightarrow> Execute e ctx h sp s = (Some (report2, Some err), s1)
         | (LoopPanicked, s1) \<Rightarrow> Execute e ctx h sp s = (None, s1)"
proof -
  obtain vr where vf: "Verify h (e_verifier e) sp = (vr, None)"
    using v by (cases "Verify h (e_verifier e) sp") auto
  let ?vars0 = "SetUserVars h (NewVariables h) (pb_Variables pb)"
  let ?report0 = "(newReport e sp ''pending'')
                   \<lparr>rep_Verification := vr,
                    rep_PlaybookName := pb_Name pb, rep_Status := ''running'',
                    rep_TasksTotal := int (length (pb_Tasks pb))\<rparr>"
  obtain loop s1 where tl: "taskLoop e ctx h pb (pb_Tasks pb) ?vars0 {} ?report0 s = (loop, s1)"
    by (cases "taskLoop e ctx h pb (pb_Tasks pb) ?vars0 {} ?report0 s")
  have ex: "Execute e ctx h sp s =
      (case loop of
         LoopPanicked \<Rightarrow> (None, s1)
       | LoopAborted report2 err \<Rightarrow> (Some (report2, Some err), s1)
       | LoopFinished report2 vars2 n2 \<Rightarrow>
          (case runHandlers e ctx h (pb_Handlers pb) vars2 n2 report2 s1 of
             (None, s2) \<Rightarrow> (None, s2)
           | (Some report3, s2) \<Rightarrow>
               (Some (report3\<lparr>rep_Status := ''completed'',
                              rep_RebootRequired := pb_RequiresReboot pb\<rparr>, None), s2)))"
    using vf p pl tl by (auto simp: Execute_def Let_def)
  have goal: "case loop of
           LoopFinished report2 vars2 n2 \<Rightarrow>
             map tr_TaskName (rep_TaskResults report2) = map t_Name (pb_Tasks pb)
             \<and> n2 = notifiedBy (pb_Tasks pb) (rep_TaskResults report2)
             \<and> (case runInOrder e ctx h
                        (filter (\<lambda>handler. t_Name handler \<in> n2) (pb_Handlers pb)) vars2 s1 of
                  (Some hresults, s2) \<Rightarrow>
                    (\<exists>report. Execute e ctx h sp s = (Some (report, None), s2)
                       \<and> rep_Status report = ''completed''
                       \<and> rep_TaskResults report = rep_TaskResults report2 @ hresults)
                    \<and> map tr_TaskName hresults
                        = map t_Name (filter (\<lambda>handler. t_Name handler \<in> n2) (pb_Handlers pb))
                | (None, s2) \<Rightarrow> Execute e ctx h sp s = (None, s2))
         | LoopAborted report2 err \<Rightarrow> Execute e ctx h sp s = (Some (report2, Some err), s1)
         | LoopPanicked \<Rightarrow> Execute e ctx h sp s = (None, s1)"
  proof (cases loop)
    case (LoopAborted report2 err)
    with ex show ?thesis by simp
  next
    case LoopPanicked
    with ex show ?thesis by simp
  next
    case (LoopFinished report2 vars2 n2)
    have r0: "rep_TaskResults ?report0 = []" by (simp add: newReport_def)
    from taskLoop_results [OF tl [unfolded LoopFinished]] r0
    have a: "map tr_TaskName (rep_TaskResults report2) = map t_Name (pb_Tasks pb)"
      "n2 = notifiedBy (pb_Tasks pb) (rep_TaskResults report2)"
      by auto
    let ?hs = "filter (\<lambda>handler. t_Name handler \<in> n2) (pb_Handlers pb)"
    obtain out s2 where ro: "runInOrder e ctx h ?hs vars2 s1 = (out, s2)"
      by (cases "runInOrder e ctx h ?hs vars2 s1")
    note rh = runHandlers_runInOrder [OF ro, of report2]
    have c: "case runInOrder e ctx h ?hs vars2 s1 of
            (Some hresults, s2) \<Rightarrow>
              (\<exists>report. Execute e ctx h sp s = (Some (report, None), s2)
                 \<and> rep_Status report = ''completed''
                 \<and> rep_TaskResults report = rep_TaskResults report2 @ hresults)
              \<and> map tr_TaskName hresults = map t_Name ?hs
          | (None, s2) \<Rightarrow> Execute e ctx h sp s = (None, s2)"
    proof (cases out)
      case None
      with rh ex LoopFinished have "Execute e ctx h sp s = (None, s2)" by simp
      then show ?thesis unfolding ro None by simp
    next
      case (Some hresults)
      with rh obtain report' where
        r': "runHandlers e ctx h (pb_Handlers pb) vars2 n2 report2 s1 = (Some report', s2)"
          "rep_TaskResults report' = rep_TaskResults report2 @ hresults"
        by auto
      from runInOrder_names [OF ro [unfolded Some]]
      have nm: "map tr_TaskName hresults = map t_Name ?hs" .
      have "Execute e ctx h sp s
              = (Some (report'\<lparr>rep_Status := ''completed'',
                              rep_RebootRequired := pb_RequiresReboot pb\<rparr>, None), s2)"
        using ex LoopFinished r'(1) by simp
      moreover have "rep_Status (report'\<lparr>rep_Status := ''completed'',
                              rep_RebootRequired := pb_RequiresReboot pb\<rparr>) = ''completed''"
        by simp
      moreover have "rep_TaskResults (report'\<lparr>rep_Status := ''completed'',
                              rep_RebootRequired := pb_RequiresReboot pb\<rparr>)
                       = rep_TaskResults report2 @ hresults"
        using r'(2) by simp
      ultimately have "\<exists>report. Execute e ctx h sp s = (Some (report, None), s2)
                 \<and> rep_Status report = ''completed''
                 \<and> rep_TaskResults report = rep_TaskResults report2 @ hresults"
        by blast
      with nm show ?thesis unfolding ro Some by simp
    qed
    from a(1) a(2) c show ?thesis unfolding LoopFinished loop_result.case by (intro conjI)
  qed
  from vf have "fst (Verify h (e_verifier e) sp) = vr" by simp
  with tl goal show ?thesis by (simp split: loop_result.splits)
qed


theorem notified_handlers_run_after_loop_witness:
  "snd (Verify (sample_host sample_unmarshal) (e_verifier sample_executor)
          (sample_sp ''notify'' ''approved'')) = None
   \<and> Parse (sample_host sample_unmarshal) (e_parser sample_executor)
         (sp_Content (sample_sp ''notify'' ''approved''))
       = Inr (sample_playbook [] [sample_task ''t1'' ''echo'' [''reload''], sample_task ''t2'' ''echo'' []]
               [sample_task ''other'' ''other-it'' [], sample_task ''reload'' ''reload-it'' []] None)
   \<and> (\<exists>report.
         Execute sample_executor sample_ctx (sample_host sample_unmarshal)
           (sample_sp ''notify'' ''approved'') sample_sys
         = (Some (report, None),
            \<lparr>world = [''echo'', ''echo'', ''reload-it''],
             handlerCalls = [(''command'', [(''command'', PStr ''echo'')]),
                             (''command'', [(''command'', PStr ''echo'')]),
                             (''command'', [(''command'', PStr ''reload-it'')])],
             progressLog = [(''t1'', TaskStatusRunning), (''t1'', TaskStatusCompleted),
                            (''t2'', TaskStatusRunning), (''t2'', TaskStatusCompleted),
                            (''reload'', TaskStatusRunning), (''reload'', TaskStatusCompleted)]\<rparr>)
         \<and> rep_Status report = ''completed''
         \<and> map tr_TaskName (rep_TaskResults report) = [''t1'', ''t2'', ''reload''])"
proof -
  let ?h = "sample_host sample_unmarshal"
  let ?sp = "sample_sp ''notify'' ''approved''"
  let ?tasks = "[sample_task ''t1'' ''echo'' [''reload''], sample_task ''t2'' ''echo'' []]"
  let ?handlers = "[sample_task ''other'' ''other-it'' [], sample_task ''reload'' ''reload-it'' []]"
  let ?pb = "sample_playbook [] ?tasks ?handlers None"
  have 1: "snd (Verify ?h (e_verifier sample_executor) ?sp) = None"
    by (simp add: sample_defs verify_defs)
  have 2: "Parse ?h (e_parser sample_executor) (sp_Content ?sp) = Inr ?pb"
    by (simp add: sample_defs parse_defs)
  have 3: "pb_Platforms ?pb = [] \<or> e_platform sample_executor \<in> set (pb_Platforms ?pb)"
    by (simp add: sample_playbook_def)
  from notified_handlers_run_after_loop [OF 1 2 3, of sample_ctx sample_sys]
  have "\<exists>report.
         Execute sample_executor sample_ctx ?h ?sp sample_sys
         = (Some (report, None),
            \<lparr>world = [''echo'', ''echo'', ''reload-it''],
             handlerCalls = [(''command'', [(''command'', PStr ''echo'')]),
                             (''command'', [(''command'', PStr ''echo'')]),
                             (''command'', [(''command'', PStr ''reload-it'')])],
             progressLog = [(''t1'', TaskStatusRunning), (''t1'', TaskStatusCompleted),
                            (''t2'', TaskStatusRunning), (''t2'', TaskStatusCompleted),
                            (''reload'', TaskStatusRunning), (''reload'', TaskStatusCompleted)]\<rparr>)
         \<and> rep_Status report = ''completed''
         \<and> map tr_TaskName (rep_TaskResults report) = [''t1'', ''t2'', ''reload'']"
    by (auto simp: Let_def newReport_def sample_task_def sample_executor_def sample_handler_def
          sample_ctx_def sample_sys_def sample_playbook_def exec_defs NewVariables_def
          notifiedBy_def)
  with 1 2 show ?thesis by (intro conjI)
qed

theorem notified_handler_skipped_on_abort_counterexample:
  "outcomeStatus (fst (Execute sample_executor sample_ctx (sample_host sample_unmarshal)
          (sample_sp ''notify-then-fail'' ''approved'') sample_sys)) = ''failed''
   \<and> outcomeTasks (fst (Execute sample_executor sample_ctx (sample_host sample_unmarshal)
          (sample_sp ''notify-then-fail'' ''approved'') sample_sys))
       = [(''t1'', TaskStatusCompleted), (''t2'', TaskStatusFailed)]
   \<and> world (snd (Execute sample_executor sample_ctx (sample_host sample_unmarshal)
          (sample_sp ''notify-then-fail'' ''approved'') sample_sys)) = [''echo'', ''fail'']"
  by (simp add: Execute_def Let_def outcomeStatus_def outcomeTasks_def newReport_def
        sample_defs exec_defs parse_defs verify_defs NewVariables_def)

text \<open>
  Claim C9. The claim says that an existing \<open>creates\<close> path keeps the shell command from
  running. On the code the command runs first: for every parameter map with a non-empty
  \<open>command\<close> string, whatever \<open>creates\<close> says, the handler leaves the system in the
  state that running the command leaves. Only after a successful run does it look at
  \<open>creates\<close>: if the path exists then, the result has \<open>changed\<close> false and the message
  \<open>Skipped\<close>, and carries the output of the command that ran.
\<close>

theorem creates_checked_after_command_ran:
  "getString ps ''command'' = Some cmdStr \<longrightarrow> cmdStr \<noteq> [] \<longrightarrow>
     snd (CommandHandler_Execute h os ps w) = snd (os_Run os (commandSpec h os ps cmdStr) w)
     \<and> (getString ps ''creates'' = Some path \<longrightarrow> path \<noteq> [] \<longrightarrow>
          rr_err (fst (os_Run os (commandSpec h os ps cmdStr) w)) = None \<longrightarrow>
          os_fileExists os path (snd (os_Run os (commandSpec h os ps cmdStr) w)) \<longrightarrow>
          (\<exists>r. fst (CommandHandler_Execute h os ps w) = (Some r, None)
             \<and> \<not> tr_Changed r \<and> tr_Status r = TaskStatusCompleted
             \<and> tr_Stdout r = TrimSpace (rr_stdout (fst (os_Run os (commandSpec h os ps cmdStr) w)))
             \<and> tr_Message r = ''Skipped: '' @ [CHR 0x27] @ path @ [CHR 0x27] @ '' already exists''))"
  by (cases "os_Run os (commandSpec h os ps cmdStr) w")
     (auto simp: CommandHandler_Execute_def commandSpec_def Let_def
           split: prod.splits option.splits if_splits)

theorem creates_checked_after_command_ran_witness:
  "getString [(''command'', PStr ''touch /tmp/x''), (''creates'', PStr ''/tmp/x'')] ''command''
     = Some ''touch /tmp/x''
   \<and> getString [(''command'', PStr ''touch /tmp/x''), (''creates'', PStr ''/tmp/x'')] ''creates''
     = Some ''/tmp/x''
   \<and> os_fileExists sample_os ''/tmp/x'' ([''/tmp/x''], [])
   \<and> snd (CommandHandler_Execute (sample_host sample_unmarshal) sample_os
          [(''command'', PStr ''touch /tmp/x''), (''creates'', PStr ''/tmp/x'')] ([''/tmp/x''], []))
       = ([''/tmp/x''], [''touch /tmp/x''])
   \<and> (\<exists>r. fst (CommandHandler_Execute (sample_host sample_unmarshal) sample_os
          [(''command'', PStr ''touch /tmp/x''), (''creates'', PStr ''/tmp/x'')] ([''/tmp/x''], []))
         = (Some r, None) \<and> \<not> tr_Changed r)"
proof -
  let ?ps = "[(''command'', PStr ''touch /tmp/x''), (''creates'', PStr ''/tmp/x'')]"
  let ?h = "sample_host sample_unmarshal"
  let ?w = "([''/tmp/x''], []) :: string list \<times> string list"
  have 1: "getString ?ps ''command'' = Some ''touch /tmp/x''" by (simp add: getString_def)
  have 2: "''touch /tmp/x'' \<noteq> []" by simp
  have 3: "getString ?ps ''creates'' = Some ''/tmp/x''" by (simp add: getString_def)
  have 4: "''/tmp/x'' \<noteq> []" by simp
  have 5: "rr_err (fst (os_Run sample_os (commandSpec ?h sample_os ?ps ''touch /tmp/x'') ?w)) = None"
    by (simp add: sample_os_def)
  have 6: "snd (os_Run sample_os (commandSpec ?h sample_os ?ps ''touch /tmp/x'') ?w)
            = ([''/tmp/x''], [''touch /tmp/x''])"
    by (simp add: sample_os_def commandSpec_def)
  have 7: "os_fileExists sample_os ''/tmp/x''
             (snd (os_Run sample_os (commandSpec ?h sample_os ?ps ''touch /tmp/x'') ?w))"
    unfolding 6 by (simp add: sample_os_def)
  have 8: "os_fileExists sample_os ''/tmp/x'' ?w" by (simp add: sample_os_def)
  from creates_checked_after_command_ran [where ps = ?ps and cmdStr = "''touch /tmp/x''"
      and h = ?h and os = sample_os and w = ?w and path = "''/tmp/x''"] 1 2 3 4 5 7
  have "snd (CommandHandler_Execute ?h sample_os ?ps ?w)
          = snd (os_Run sample_os (commandSpec ?h sample_os ?ps ''touch /tmp/x'') ?w)"
    and "\<exists>r. fst (CommandHandler_Execute ?h sample_os ?ps ?w) = (Some r, None) \<and> \<not> tr_Changed r"
    by blast+
  with 1 3 6 8 show ?thesis by simp
qed

subsection \<open>Facts about the string functions\<close>

lemma take_append_le: "n \<le> length xs \<Longrightarrow> take n (xs @ ys) = take n xs"
  by simp

lemma HasPrefix_append: "HasPrefix s p \<Longrightarrow> HasPrefix (s @ t) p"
proof -
  assume a: "HasPrefix s p"
  from take_append_le [OF HasPrefix_length [OF a], of t] a show ?thesis
    by (simp add: HasPrefix_def)
qed

lemma Contains_Nil [simp]: "Contains s []"
  by (cases s) (simp_all add: HasPrefix_def)

lemma Contains_HasPrefix: "HasPrefix s p \<Longrightarrow> Contains s p"
  by (cases s) (auto simp: HasPrefix_def)

lemma Contains_Cons: "Contains s sub \<Longrightarrow> Contains (c # s) sub"
  by simp

lemma Contains_append_left: "Contains s sub \<Longrightarrow> Contains (t @ s) sub"
  by (induction t) simp_all

lemma Contains_append_right: "Contains s sub \<Longrightarrow> Contains (s @ t) sub"
proof (induction s)
  case Nil
  then show ?case by simp
next
  case (Cons c cs)
  then show ?case using HasPrefix_append [of "c # cs" sub t] by auto
qed

lemma Contains_snoc_other:
  assumes "Contains (s @ [x]) sep" and "sep \<noteq> []" and "x \<noteq> last sep"
  shows "Contains s sep"
  using assms
proof (induction s)
  case Nil
  then have "take (length sep) [x] = sep" by (simp add: HasPrefix_def)
  then have "sep = [x]" using Nil.prems(2) by (cases sep) (auto split: if_splits)
  with Nil.prems(3) show ?case by simp
next
  case (Cons c cs)
  from Cons.prems(1) consider "HasPrefix (c # cs @ [x]) sep" | "Contains (cs @ [x]) sep"
    by auto
  then show ?case
  proof cases
    case 1
    then have t: "take (length sep) ((c # cs) @ [x]) = sep" by (simp add: HasPrefix_def)
    show ?thesis
    proof (cases "length sep \<le> length (c # cs)")
      case True
      from take_append_le [OF True, of "[x]"] t have "take (length sep) (c # cs) = sep"
        by simp
      then show ?thesis by (simp add: HasPrefix_def)
    next
      case False
      with t have "sep = (c # cs) @ [x]" by simp
      with Cons.prems(3) show ?thesis by simp
    qed
  next
    case 2
    from Cons.IH [OF this Cons.prems(2) Cons.prems(3)] show ?thesis by simp
  qed
qed

lemma Contains_no_first:
  "c \<notin> set s \<Longrightarrow> \<not> Contains s (c # sub)"
  by (induction s) (auto simp: HasPrefix_def)

lemma Contains_skip:
  "c \<notin> set u \<Longrightarrow> Contains (u @ s) (c # sub) = Contains s (c # sub)"
  by (induction u) (auto simp: HasPrefix_def)

lemma Cut_None_iff: "Cut s sep = None \<longleftrightarrow> \<not> Contains s sep"
  by (induction s) (auto split: option.splits)

lemma Cut_first:
  assumes "sep \<noteq> []" and "\<not> Contains (X @ butlast sep) sep"
  shows "Cut (X @ sep @ Y) sep = Some (X, Y)"
  using assms(2)
proof (induction X)
  case Nil
  from assms(1) obtain c cs where sep: "sep = c # cs" by (cases sep) auto
  then have "HasPrefix (sep @ Y) sep" by (simp add: HasPrefix_def)
  with sep show ?case by (simp add: HasPrefix_def)
next
  case (Cons x X)
  have np: "\<not> HasPrefix (x # X @ sep @ Y) sep"
  proof
    assume "HasPrefix (x # X @ sep @ Y) sep"
    moreover have "x # X @ sep @ Y = ((x # X) @ butlast sep) @ ([last sep] @ Y)"
      using append_butlast_last_id [OF assms(1)] by (metis append.assoc append_Cons)
    ultimately have "take (length sep) (((x # X) @ butlast sep) @ ([last sep] @ Y)) = sep"
      by (simp only: HasPrefix_def)
    moreover have "length sep \<le> length ((x # X) @ butlast sep)" by simp
    ultimately have "take (length sep) ((x # X) @ butlast sep) = sep"
      using take_append_le by metis
    then have "HasPrefix ((x # X) @ butlast sep) sep" by (simp only: HasPrefix_def)
    with Cons.prems show False using Contains_HasPrefix by blast
  qed
  from Cons.prems have "\<not> Contains (X @ butlast sep) sep" by simp
  from Cons.IH [OF this] np show ?case by simp
qed

lemma Split_single:
  assumes "sep \<noteq> []" and "\<not> Contains s sep"
  shows "Split s sep = [s]"
proof -
  from assms(2) have "Cut s sep = None" by (simp add: Cut_None_iff)
  with assms(1) show ?thesis by (subst Split.simps) simp
qed

lemma Split_first:
  assumes "sep \<noteq> []" and "\<not> Contains (X @ butlast sep) sep"
  shows "Split (X @ sep @ Y) sep = X # Split Y sep"
proof -
  note c = Cut_first [OF assms, of Y]
  show ?thesis using assms(1) c by (subst Split.simps) simp
qed

lemma set_trimRunes: "set (trimRunes rs s) \<subseteq> set s"
proof (induction rs s rule: trimRunes.induct)
  case (1 rs)
  then show ?case by simp
next
  case (2 rs c cs)
  show ?case
  proof (cases "find (HasPrefix (c # cs)) rs")
    case None
    then show ?thesis by simp
  next
    case (Some r)
    from "2.IH" [OF Some] have "set (trimRunes rs (drop (length r - 1) cs)) \<subseteq> set cs"
      using set_drop_subset by fastforce
    with Some show ?thesis by auto
  qed
qed

lemma set_TrimSpace: "x \<in> set (TrimSpace s) \<Longrightarrow> x \<in> set s"
  using set_trimRunes [of "map rev spaceRunes" "rev (trimRunes spaceRunes s)"]
    set_trimRunes [of spaceRunes s]
  by (auto simp: TrimSpace_def)

lemma trimRunes_id_iff:
  "trimRunes rs s = s \<longleftrightarrow> s = [] \<or> find (HasPrefix s) rs = None"
proof (cases s)
  case Nil
  then show ?thesis by simp
next
  case (Cons c cs)
  show ?thesis
  proof (cases "find (HasPrefix (c # cs)) rs")
    case None
    with Cons show ?thesis by simp
  next
    case (Some r)
    have "length (trimRunes rs (drop (length r - 1) cs)) \<le> length cs"
      using length_trimRunes_le [of rs "drop (length r - 1) cs"] by simp
    then have "trimRunes rs (drop (length r - 1) cs) \<noteq> c # cs" by auto
    with Cons Some show ?thesis by simp
  qed
qed

lemma TrimSpace_id_iff:
  "TrimSpace s = s \<longleftrightarrow> trimRunes spaceRunes s = s \<and> trimRunes (map rev spaceRunes) (rev s) = rev s"
proof
  assume a: "TrimSpace s = s"
  have "length s = length (TrimSpace s)" using a by simp
  also have "\<dots> \<le> length (trimRunes spaceRunes s)"
    unfolding TrimSpace_def using length_trimRunes_le [of "map rev spaceRunes" "rev (trimRunes spaceRunes s)"]
    by simp
  finally have l: "length s \<le> length (trimRunes spaceRunes s)" .
  have 1: "trimRunes spaceRunes s = s"
  proof (rule ccontr)
    assume n: "trimRunes spaceRunes s \<noteq> s"
    then obtain c cs where s: "s = c # cs" by (cases s) auto
    with n obtain r where f: "find (HasPrefix (c # cs)) spaceRunes = Some r"
      using trimRunes_id_iff [of spaceRunes s] by auto
    have "length (trimRunes spaceRunes (drop (length r - 1) cs)) \<le> length cs"
      using length_trimRunes_le [of spaceRunes "drop (length r - 1) cs"] by simp
    with s f l show False by simp
  qed
  with a have "rev (trimRunes (map rev spaceRunes) (rev s)) = s" by (simp add: TrimSpace_def)
  then have "trimRunes (map rev spaceRunes) (rev s) = rev s" by (metis rev_rev_ident)
  with 1 show "trimRunes spaceRunes s = s \<and> trimRunes (map rev spaceRunes) (rev s) = rev s" by simp
next
  assume "trimRunes spaceRunes s = s \<and> trimRunes (map rev spaceRunes) (rev s) = rev s"
  then show "TrimSpace s = s" by (simp add: TrimSpace_def)
qed

lemma find_None_iff': "find P xs = None \<longleftrightarrow> (\<forall>x\<in>set xs. \<not> P x)"
  by (induction xs) auto

text \<open>No rune of the table other than the blank itself holds a blank.\<close>

lemma spaceRunes_blank:
  "r \<in> set spaceRunes \<Longrightarrow> r \<noteq> [] \<and> (length r = 1 \<or> CHR '' '' \<notin> set r)"
  by (auto simp: spaceRunes_def)

lemma spaceRunes_rev_blank:
  "r \<in> set (map rev spaceRunes) \<Longrightarrow> r \<noteq> [] \<and> (length r = 1 \<or> CHR '' '' \<notin> set r)"
  using spaceRunes_blank by fastforce

lemma spaceRunes_hd:
  "r \<in> set spaceRunes \<Longrightarrow> r \<noteq> [] \<and> (isSpace (hd r) \<or> 128 \<le> (of_char (hd r) :: nat))"
  by (auto simp: spaceRunes_def isSpace_def)

lemma spaceRunes_last:
  "r \<in> set spaceRunes \<Longrightarrow> r \<noteq> [] \<and> (isSpace (last r) \<or> 128 \<le> (of_char (last r) :: nat))"
  by (auto simp: spaceRunes_def isSpace_def)

lemma no_rune_before_blank:
  assumes t: "\<And>r. r \<in> set rs \<Longrightarrow> r \<noteq> [] \<and> (length r = 1 \<or> CHR '' '' \<notin> set r)"
    and x: "X \<noteq> []" and n: "find (HasPrefix X) rs = None"
  shows "find (HasPrefix (X @ CHR '' '' # R)) rs = None"
proof -
  have "\<not> HasPrefix (X @ CHR '' '' # R) r" if r: "r \<in> set rs" for r
  proof
    assume p: "HasPrefix (X @ CHR '' '' # R) r"
    from n r have nx: "\<not> HasPrefix X r" by (simp add: find_None_iff')
    show False
    proof (cases "length r \<le> length X")
      case True
      with p have "HasPrefix X r" by (simp add: HasPrefix_def)
      with nx show False by simp
    next
      case False
      then have l: "length X < length r" by simp
      from p have e: "take (length r) (X @ CHR '' '' # R) = r" by (simp add: HasPrefix_def)
      have "take (length r) (X @ CHR '' '' # R) ! length X = (X @ CHR '' '' # R) ! length X"
        using l by (rule nth_take)
      then have "r ! length X = CHR '' ''" by (simp only: e nth_append_length)
      with l have "CHR '' '' \<in> set r" using nth_mem by metis
      moreover from l x have "length r \<noteq> 1" by (cases X) auto
      ultimately show False using t [OF r] by simp
    qed
  qed
  then show ?thesis by (simp add: find_None_iff')
qed

lemma TrimSpace_join:
  assumes x: "X \<noteq> []" "TrimSpace X = X" and y: "Y \<noteq> []" "TrimSpace Y = Y"
  shows "TrimSpace (X @ CHR '' '' # m @ CHR '' '' # Y) = X @ CHR '' '' # m @ CHR '' '' # Y"
proof -
  from x have 1: "find (HasPrefix X) spaceRunes = None"
    using TrimSpace_id_iff [of X] trimRunes_id_iff [of spaceRunes X] by simp
  from y have 2: "find (HasPrefix (rev Y)) (map rev spaceRunes) = None"
    using TrimSpace_id_iff [of Y] trimRunes_id_iff [of "map rev spaceRunes" "rev Y"] by simp
  have a: "find (HasPrefix (X @ CHR '' '' # (m @ CHR '' '' # Y))) spaceRunes = None"
    using spaceRunes_blank x(1) 1 by (rule no_rune_before_blank)
  have ry: "rev Y \<noteq> []" using y(1) by simp
  have b: "find (HasPrefix (rev Y @ CHR '' '' # (rev m @ CHR '' '' # rev X))) (map rev spaceRunes) = None"
    using spaceRunes_rev_blank ry 2 by (rule no_rune_before_blank)
  show ?thesis
    using a b TrimSpace_id_iff [of "X @ CHR '' '' # m @ CHR '' '' # Y"]
      trimRunes_id_iff [of spaceRunes "X @ CHR '' '' # m @ CHR '' '' # Y"]
      trimRunes_id_iff [of "map rev spaceRunes" "rev (X @ CHR '' '' # m @ CHR '' '' # Y)"]
    by simp
qed

lemma no_rune_hd:
  assumes t: "\<And>r. r \<in> set rs \<Longrightarrow> r \<noteq> [] \<and> (isSpace (hd r) \<or> 128 \<le> (of_char (hd r) :: nat))"
    and s: "s \<noteq> []" and a: "(of_char (hd s) :: nat) < 128" and n: "\<not> isSpace (hd s)"
  shows "find (HasPrefix s) rs = None"
proof -
  have "\<not> HasPrefix s r" if r: "r \<in> set rs" for r
  proof
    assume "HasPrefix s r"
    then have e: "take (length r) s = r" by (simp add: HasPrefix_def)
    from t [OF r] have ne: "r \<noteq> []" by simp
    then have "hd r = hd (take (length r) s)" using e by simp
    also have "\<dots> = hd s" using ne s by (cases s; cases r) auto
    finally have "hd r = hd s" .
    with t [OF r] a n show False by auto
  qed
  then show ?thesis by (simp add: find_None_iff')
qed

lemma TrimSpace_id:
  assumes "s \<noteq> []" and "(of_char (hd s) :: nat) < 128" and "\<not> isSpace (hd s)"
    and "(of_char (last s) :: nat) < 128" and "\<not> isSpace (last s)"
  shows "TrimSpace s = s"
proof -
  have 1: "find (HasPrefix s) spaceRunes = None"
    using spaceRunes_hd assms(1,2,3) by (rule no_rune_hd)
  have t: "r \<noteq> [] \<and> (isSpace (hd r) \<or> 128 \<le> (of_char (hd r) :: nat))"
    if "r \<in> set (map rev spaceRunes)" for r
  proof -
    from that obtain x where x: "x \<in> set spaceRunes" and r: "r = rev x" by auto
    from spaceRunes_last [OF x] show ?thesis by (simp add: r hd_rev)
  qed
  have 2: "find (HasPrefix (rev s)) (map rev spaceRunes) = None"
    using t by (rule no_rune_hd) (use assms in \<open>simp_all add: hd_rev\<close>)
  show ?thesis
    using 1 2 TrimSpace_id_iff [of s] trimRunes_id_iff [of spaceRunes s]
      trimRunes_id_iff [of "map rev spaceRunes" "rev s"] by simp
qed

lemma CountByte_append: "CountByte (s @ t) c = CountByte s c + CountByte t c"
  by (simp add: CountByte_def)

lemma Contains_split_char:
  assumes "c \<notin> set sep" and "Contains (P @ c # Q) sep"
  shows "Contains P sep \<or> Contains Q sep"
  using assms(2)
proof (induction P)
  case Nil
  then consider "HasPrefix (c # Q) sep" | "Contains Q sep" by auto
  then show ?case
  proof cases
    case 1
    with assms(1) have "sep = []" by (cases sep) (auto simp: HasPrefix_def)
    then show ?thesis by simp
  next
    case 2
    then show ?thesis by simp
  qed
next
  case (Cons p P)
  from Cons.prems consider "HasPrefix (p # P @ c # Q) sep" | "Contains (P @ c # Q) sep" by auto
  then show ?case
  proof cases
    case 1
    then have t: "take (length sep) ((p # P) @ c # Q) = sep" by (simp add: HasPrefix_def)
    have "length sep \<le> length (p # P)"
    proof (rule ccontr)
      assume "\<not> length sep \<le> length (p # P)"
      then have l: "length (p # P) < length sep" by simp
      then have "length (p # P) < length (take (length sep) ((p # P) @ c # Q))" by simp
      then have "take (length sep) ((p # P) @ c # Q) ! length (p # P) = ((p # P) @ c # Q) ! length (p # P)"
        using l by (simp only: nth_take)
      also have "\<dots> = c" by (simp only: nth_append_length)
      finally have "sep ! length (p # P) = c" using t by simp
      with l have "c \<in> set sep" using nth_mem by metis
      with assms(1) show False by simp
    qed
    from take_append_le [OF this, of "c # Q"] t have "HasPrefix (p # P) sep"
      by (simp add: HasPrefix_def)
    then show ?thesis using Contains_HasPrefix by blast
  next
    case 2
    from Cons.IH [OF this] show ?thesis by auto
  qed
qed

lemma padded_inner: "\<not> Contains ('' '' @ s @ '' '') sep \<Longrightarrow> \<not> Contains s sep"
  using Contains_append_left [of "s @ '' ''" sep "'' ''"] Contains_append_right [of s sep "'' ''"]
  by auto

lemma padded_and: "\<not> Contains ('' '' @ s @ '' '') '' and '' \<Longrightarrow> \<not> Contains (s @ '' and'') '' and ''"
proof
  assume n: "\<not> Contains ('' '' @ s @ '' '') '' and ''" and c: "Contains (s @ '' and'') '' and ''"
  from c have "Contains ((s @ '' an'') @ [CHR ''d'']) '' and ''" by simp
  then have "Contains (s @ '' an'') '' and ''" by (rule Contains_snoc_other) simp_all
  then have "Contains ((s @ '' a'') @ [CHR ''n'']) '' and ''" by simp
  then have "Contains (s @ '' a'') '' and ''" by (rule Contains_snoc_other) simp_all
  then have "Contains ((s @ '' '') @ [CHR ''a'']) '' and ''" by simp
  then have "Contains (s @ '' '') '' and ''" by (rule Contains_snoc_other) simp_all
  then have "Contains ('' '' @ s @ '' '') '' and ''" by (rule Contains_append_left)
  with n show False by simp
qed

lemma padded_or: "\<not> Contains ('' '' @ s @ '' '') '' or '' \<Longrightarrow> \<not> Contains (s @ '' or'') '' or ''"
proof
  assume n: "\<not> Contains ('' '' @ s @ '' '') '' or ''" and c: "Contains (s @ '' or'') '' or ''"
  from c have "Contains ((s @ '' o'') @ [CHR ''r'']) '' or ''" by simp
  then have "Contains (s @ '' o'') '' or ''" by (rule Contains_snoc_other) simp_all
  then have "Contains ((s @ '' '') @ [CHR ''o'']) '' or ''" by simp
  then have "Contains (s @ '' '') '' or ''" by (rule Contains_snoc_other) simp_all
  then have "Contains ('' '' @ s @ '' '') '' or ''" by (rule Contains_append_left)
  with n show False by simp
qed

lemma splitOnOperator_none:
  assumes "sep \<noteq> []" and "\<not> Contains e sep"
  shows "splitOnOperator e sep = []"
  using Split_single [OF assms] by (simp add: splitOnOperator_def)

lemma splitOnOperator_two:
  assumes "Split e sep = [X, Y]" and "CountByte X CHR ''('' \<le> CountByte X CHR '')''" and "Y \<noteq> []"
  shows "splitOnOperator e sep = [TrimSpace X, TrimSpace Y]"
  using assms by (simp add: splitOnOperator_def Let_def)

lemma trimmed_TrimSpace: "trimmed s \<Longrightarrow> TrimSpace s = s"
  by (simp add: trimmed_def)

lemma trimmed_ascii:
  assumes "s \<noteq> []" and "(of_char (hd s) :: nat) < 128" and "\<not> isSpace (hd s)"
    and "(of_char (last s) :: nat) < 128" and "\<not> isSpace (last s)"
  shows "trimmed s"
  using assms TrimSpace_id [of s] by (simp add: trimmed_def)

lemma trimmed_join:
  assumes "trimmed X" and "trimmed Y"
  shows "trimmed (X @ CHR '' '' # m @ CHR '' '' # Y)"
  using assms TrimSpace_join [of X Y m] by (simp add: trimmed_def)

lemma Evaluate_binary:
  assumes x: "trimmed X" and y: "trimmed Y"
  shows "TrimSpace (X @ CHR '' '' # m @ CHR '' '' # Y) = X @ CHR '' '' # m @ CHR '' '' # Y"
    and "X @ CHR '' '' # m @ CHR '' '' # Y \<noteq> []"
    and "X @ CHR '' '' # m @ CHR '' '' # Y \<noteq> ''true''"
    and "X @ CHR '' '' # m @ CHR '' '' # Y \<noteq> ''false''"
proof -
  let ?E = "X @ CHR '' '' # m @ CHR '' '' # Y"
  show "TrimSpace ?E = ?E"
    using trimmed_join [OF x y] by (rule trimmed_TrimSpace)
  show "?E \<noteq> []" by simp
  have m: "CHR '' '' \<in> set ?E" by simp
  show "?E \<noteq> ''true''"
  proof
    assume e: "?E = ''true''"
    from m have "CHR '' '' \<in> set ''true''" unfolding e .
    then show False by simp
  qed
  show "?E \<noteq> ''false''"
  proof
    assume e: "?E = ''false''"
    from m have "CHR '' '' \<in> set ''false''" unfolding e .
    then show False by simp
  qed
qed

lemma Evaluate_andLoop:
  assumes "TrimSpace e = e" and "e \<noteq> []" and "e \<noteq> ''true''" and "e \<noteq> ''false''"
    and "splitOnOperator e '' and '' = [X, Y]"
  shows "Evaluate h v e = andAlso (Evaluate h v X) (Evaluate h v Y)"
  by (subst Evaluate.simps [of h v e]) (simp add: assms Let_def andAlso_def split: sum.splits)

lemma Evaluate_orLoop:
  assumes "TrimSpace e = e" and "e \<noteq> []" and "e \<noteq> ''true''" and "e \<noteq> ''false''"
    and "splitOnOperator e '' and '' = []" and "splitOnOperator e '' or '' = [X, Y]"
  shows "Evaluate h v e = orElse (Evaluate h v X) (Evaluate h v Y)"
  by (subst Evaluate.simps [of h v e]) (simp add: assms Let_def orElse_def split: sum.splits)

lemma Evaluate_or:
  assumes a: "plainOperand A" and b: "plainOperand B"
  shows "Evaluate h v (A @ '' or '' @ B) = orElse (Evaluate h v A) (Evaluate h v B)"
proof -
  let ?X = "A @ '' or '' @ B"
  from a b have ta: "trimmed A" and tb: "trimmed B" by (simp_all add: plainOperand_def)
  have f: "TrimSpace ?X = ?X" "?X \<noteq> []" "?X \<noteq> ''true''" "?X \<noteq> ''false''"
    using Evaluate_binary [OF ta tb, of "''or''"] by simp_all
  have noand: "\<not> Contains ?X '' and ''"
  proof
    assume "Contains ?X '' and ''"
    then have "Contains ((A @ '' '') @ CHR ''o'' # (''r '' @ B)) '' and ''" by simp
    then have "Contains (A @ '' '') '' and '' \<or> Contains (''r '' @ B) '' and ''"
      by (rule Contains_split_char [rotated]) simp
    then show False
    proof
      assume "Contains (A @ '' '') '' and ''"
      then have "Contains ('' '' @ A @ '' '') '' and ''" by (rule Contains_append_left)
      with a show False by (simp add: plainOperand_def)
    next
      assume "Contains (''r '' @ B) '' and ''"
      then have "Contains ('' '' @ B) '' and ''" by (simp add: HasPrefix_def)
      then have "Contains (('' '' @ B) @ '' '') '' and ''" by (rule Contains_append_right)
      with b show False by (simp add: plainOperand_def)
    qed
  qed
  have s1: "splitOnOperator ?X '' and '' = []"
    by (rule splitOnOperator_none) (simp, rule noand)
  have "\<not> Contains (A @ butlast '' or '') '' or ''"
    using padded_or [of A] a by (simp add: plainOperand_def)
  then have "Split ?X '' or '' = A # Split B '' or ''"
    by (intro Split_first) simp_all
  moreover have "Split B '' or '' = [B]"
    using padded_inner [of B "'' or ''"] b by (intro Split_single) (simp_all add: plainOperand_def)
  ultimately have "Split ?X '' or '' = [A, B]" by simp
  then have "splitOnOperator ?X '' or '' = [TrimSpace A, TrimSpace B]"
    using a tb by (intro splitOnOperator_two) (simp_all add: plainOperand_def trimmed_def)
  then have s2: "splitOnOperator ?X '' or '' = [A, B]"
    using ta tb by (simp add: trimmed_TrimSpace)
  from f s1 s2 show ?thesis by (rule Evaluate_orLoop)
qed

lemma Evaluate_and:
  assumes x: "trimmed X" and nx: "\<not> Contains (X @ '' and'') '' and ''"
    and px: "CountByte X CHR ''('' \<le> CountByte X CHR '')''" and c: "plainOperand C"
  shows "Evaluate h v (X @ '' and '' @ C) = andAlso (Evaluate h v X) (Evaluate h v C)"
proof -
  let ?E = "X @ '' and '' @ C"
  from c have tc: "trimmed C" by (simp add: plainOperand_def)
  have f: "TrimSpace ?E = ?E" "?E \<noteq> []" "?E \<noteq> ''true''" "?E \<noteq> ''false''"
    using Evaluate_binary [OF x tc, of "''and''"] by simp_all
  have "\<not> Contains (X @ butlast '' and '') '' and ''" using nx by simp
  then have "Split ?E '' and '' = X # Split C '' and ''"
    by (intro Split_first) simp_all
  moreover have "Split C '' and '' = [C]"
    using padded_inner [of C "'' and ''"] c by (intro Split_single) (simp_all add: plainOperand_def)
  ultimately have "Split ?E '' and '' = [X, C]" by simp
  then have "splitOnOperator ?E '' and '' = [TrimSpace X, TrimSpace C]"
    using px tc by (intro splitOnOperator_two) (simp_all add: trimmed_def)
  then have s1: "splitOnOperator ?E '' and '' = [X, C]"
    using x tc by (simp add: trimmed_TrimSpace)
  from f s1 show ?thesis by (rule Evaluate_andLoop)
qed

text \<open>
  Claim C4, as amended. In \<open>Evaluate\<close> the operator \<open>and\<close> binds looser than \<open>or\<close>:
  for all plain operands A, B and C (trimmed, without parentheses, and without \<open>and\<close>
  or \<open>or\<close> as a word), the value of \<open>A or B and C\<close> is that of
  \<open>(A or B) and C\<close>. Both connectives short-circuit: B is evaluated only when A is
  false, C only when \<open>A or B\<close> is true, and an error of an evaluated operand is passed on.
\<close>

theorem and_binds_looser_than_or:
  assumes "plainOperand A" and "plainOperand B" and "plainOperand C"
  shows "Evaluate h v (A @ '' or '' @ B @ '' and '' @ C)
         = andAlso (orElse (Evaluate h v A) (Evaluate h v B)) (Evaluate h v C)"
proof -
  let ?X = "A @ '' or '' @ B"
  from assms have ta: "trimmed A" and tb: "trimmed B" by (simp_all add: plainOperand_def)
  have tx: "trimmed ?X" using trimmed_join [OF ta tb, of "''or''"] by simp
  have px: "CountByte ?X CHR ''('' \<le> CountByte ?X CHR '')''"
    using assms(1,2) by (simp add: plainOperand_def CountByte_append) (simp add: CountByte_def)
  have nx: "\<not> Contains (?X @ '' and'') '' and ''"
  proof
    assume "Contains (?X @ '' and'') '' and ''"
    then have "Contains ((A @ '' '') @ CHR ''o'' # (''r '' @ B @ '' and'')) '' and ''" by simp
    then have "Contains (A @ '' '') '' and '' \<or> Contains (''r '' @ B @ '' and'') '' and ''"
      by (rule Contains_split_char [rotated]) simp
    then show False
    proof
      assume "Contains (A @ '' '') '' and ''"
      then have "Contains ('' '' @ A @ '' '') '' and ''" by (rule Contains_append_left)
      with assms(1) show False by (simp add: plainOperand_def)
    next
      assume "Contains (''r '' @ B @ '' and'') '' and ''"
      then have "Contains (('' '' @ B) @ '' and'') '' and ''" by (simp add: HasPrefix_def)
      then have "Contains ((('' '' @ B) @ '' an'') @ [CHR ''d'']) '' and ''" by simp
      then have "Contains (('' '' @ B) @ '' an'') '' and ''" by (rule Contains_snoc_other) simp_all
      then have "Contains ((('' '' @ B) @ '' a'') @ [CHR ''n'']) '' and ''" by simp
      then have "Contains (('' '' @ B) @ '' a'') '' and ''" by (rule Contains_snoc_other) simp_all
      then have "Contains ((('' '' @ B) @ '' '') @ [CHR ''a'']) '' and ''" by simp
      then have "Contains (('' '' @ B) @ '' '') '' and ''" by (rule Contains_snoc_other) simp_all
      with assms(2) show False by (simp add: plainOperand_def)
    qed
  qed
  have "Evaluate h v (?X @ '' and '' @ C) = andAlso (Evaluate h v ?X) (Evaluate h v C)"
    using tx nx px assms(3) by (rule Evaluate_and)
  with Evaluate_or [OF assms(1,2), of h v] show ?thesis by simp
qed

theorem and_binds_looser_than_or_witness:
  "plainOperand ''true'' \<and> plainOperand ''false''
   \<and> Evaluate (sample_host sample_unmarshal) (NewVariables (sample_host sample_unmarshal))
        (''true'' @ '' or '' @ ''false'' @ '' and '' @ ''false'') = Inr False"
proof -
  let ?h = "sample_host sample_unmarshal"
  let ?v = "NewVariables ?h"
  have p: "plainOperand ''true''" "plainOperand ''false''"
    by (simp_all add: plainOperand_def trimmed_def TrimSpace_def spaceRunes_def CountByte_def
          HasPrefix_def)
  have t: "Evaluate ?h ?v ''true'' = Inr True"
    by (subst Evaluate.simps) (simp add: TrimSpace_def spaceRunes_def HasPrefix_def)
  have f: "Evaluate ?h ?v ''false'' = Inr False"
    by (subst Evaluate.simps) (simp add: TrimSpace_def spaceRunes_def HasPrefix_def)
  from and_binds_looser_than_or [OF p(1) p(2) p(2), of ?h ?v]
  have "Evaluate ?h ?v (''true'' @ '' or '' @ ''false'' @ '' and '' @ ''false'') = Inr False"
    by (simp only: t f orElse_def andAlso_def) simp
  with p show ?thesis by simp
qed

lemmas eval_defs = Evaluate.simps splitOnOperator_def Split.simps TrimSpace_def spaceRunes_def
  HasPrefix_def HasSuffix_def TrimPrefix_def CountByte_def Let_def evaluateComparison_def
  compareStrings_def compareNumbers_def resolveBoth_def resolveValue_def isQuoted_def
  isTruthy_def ToLower_def toLowerByte_def Get_def GetTaskResult_def

theorem or_and_precedence_counterexample:
  "Evaluate (sample_host sample_unmarshal) (NewVariables (sample_host sample_unmarshal))
     (''true'' @ '' or '' @ ''false'' @ '' and '' @ ''false'')
   \<noteq> orElse (Evaluate (sample_host sample_unmarshal) (NewVariables (sample_host sample_unmarshal)) ''true'')
        (andAlso (Evaluate (sample_host sample_unmarshal) (NewVariables (sample_host sample_unmarshal)) ''false'')
           (Evaluate (sample_host sample_unmarshal) (NewVariables (sample_host sample_unmarshal)) ''false''))"
  by (simp add: eval_defs orElse_def andAlso_def)

lemma HasPrefix_set: "HasPrefix s p \<Longrightarrow> set p \<subseteq> set s"
  unfolding HasPrefix_def by (metis set_take_subset)

lemma evaluateComparison_single:
  assumes "CHR '' '' \<notin> set e"
  shows "evaluateComparison h v e =
           (case resolveValue h v e of Inl err \<Rightarrow> Inl err | Inr val \<Rightarrow> Inr (isTruthy h val))"
  using assms
  by (simp add: evaluateComparison_def compareStrings_def compareNumbers_def Contains_no_first)

lemma Evaluate_single:
  assumes nb: "CHR '' '' \<notin> set e" and t: "trimmed e" and nt: "e \<noteq> ''true''" and nf: "e \<noteq> ''false''"
    and np: "\<not> (HasPrefix e ''('' \<and> HasSuffix e '')'')"
  shows "Evaluate h v e =
           (case resolveValue h v e of Inl err \<Rightarrow> Inl err | Inr val \<Rightarrow> Inr (isTruthy h val))"
proof -
  have ts: "TrimSpace e = e" using t by (rule trimmed_TrimSpace)
  have ne: "e \<noteq> []" using t by (simp add: trimmed_def)
  have s1: "splitOnOperator e '' and '' = []"
    by (rule splitOnOperator_none) (simp, simp add: Contains_no_first nb)
  have s2: "splitOnOperator e '' or '' = []"
    by (rule splitOnOperator_none) (simp, simp add: Contains_no_first nb)
  have nn: "\<not> HasPrefix e ''not ''"
    using HasPrefix_set [of e "''not ''"] nb by auto
  show ?thesis
    by (subst Evaluate.simps [of h v e])
       (simp add: ts ne nt nf s1 s2 nn np Let_def evaluateComparison_single [OF nb])
qed

lemma ToLower_ascii:
  "list_all (\<lambda>c. (of_char c :: nat) < 128) val \<Longrightarrow> ToLower h val = map toLowerByte val"
  by (simp add: ToLower_def)

text \<open>
  Claim C5, as amended. \<open>Evaluate\<close> gives true for the empty expression and for
  \<open>true\<close>, false for \<open>false\<close>, and false for \<open>0\<close> (which \<open>ParseFloat\<close> reads as a
  number). Any other single value, trimmed, without blank and not in parentheses, is
  first resolved as an operand, and truthiness is applied to the resolved text: a text is
  true unless its lower-case form, trimmed, is one of the empty text, \<open>false\<close>, \<open>0\<close>,
  \<open>no\<close>, \<open>off\<close>, \<open>null\<close>, \<open>nil\<close>, \<open>none\<close>; the lower-case form of a text of ASCII
  bytes has the letters \<open>A\<close>..\<open>Z\<close> replaced. So \<open>x\<close> evaluates to the truthiness of
  the variable \<open>x\<close>, and to false when no such variable is defined.
\<close>

theorem single_value_truthiness:
  "Evaluate h v [] = Inr True \<and> Evaluate h v ''true'' = Inr True
   \<and> Evaluate h v ''false'' = Inr False
   \<and> (ParseFloat h ''0'' \<noteq> None \<longrightarrow> Evaluate h v ''0'' = Inr False)
   \<and> (ParseFloat h ''x'' = None \<longrightarrow>
        Evaluate h v ''x'' = Inr (case Get v ''x'' of Some val \<Rightarrow> isTruthy h val | None \<Rightarrow> False))
   \<and> (CHR '' '' \<notin> set e \<and> trimmed e \<and> e \<noteq> ''true'' \<and> e \<noteq> ''false''
        \<and> \<not> (HasPrefix e ''('' \<and> HasSuffix e '')'') \<longrightarrow>
        Evaluate h v e =
          (case resolveValue h v e of Inl err \<Rightarrow> Inl err | Inr val \<Rightarrow> Inr (isTruthy h val)))
   \<and> (isTruthy h val \<longleftrightarrow>
        TrimSpace (ToLower h val) \<notin> {[], ''false'', ''0'', ''no'', ''off'', ''null'', ''nil'', ''none''})
   \<and> (list_all (\<lambda>c. (of_char c :: nat) < 128) val \<longrightarrow>
        (isTruthy h val \<longleftrightarrow>
           TrimSpace (map toLowerByte val)
             \<notin> {[], ''false'', ''0'', ''no'', ''off'', ''null'', ''nil'', ''none''}))"
proof (intro conjI impI)
  show "Evaluate h v [] = Inr True" by (subst Evaluate.simps) (simp add: TrimSpace_def)
  show "Evaluate h v ''true'' = Inr True"
    by (subst Evaluate.simps) (simp add: TrimSpace_def spaceRunes_def HasPrefix_def)
  show "Evaluate h v ''false'' = Inr False"
    by (subst Evaluate.simps) (simp add: TrimSpace_def spaceRunes_def HasPrefix_def)
  have z: "\<not> isTruthy h ''0''"
    by (simp add: isTruthy_def ToLower_def toLowerByte_def TrimSpace_def spaceRunes_def HasPrefix_def)
  have t0: "trimmed ''0''" "trimmed ''x''"
    by (simp_all add: trimmed_def TrimSpace_def spaceRunes_def HasPrefix_def)
  show "Evaluate h v ''0'' = Inr False" if "ParseFloat h ''0'' \<noteq> None"
  proof -
    have "resolveValue h v ''0'' = Inr ''0''"
      using that trimmed_TrimSpace [OF t0(1)]
      by (simp add: resolveValue_def isQuoted_def HasPrefix_def HasSuffix_def)
    with z show ?thesis
      using Evaluate_single [of "''0''" h v] t0(1) by (simp add: HasPrefix_def)
  qed
  show "Evaluate h v ''x'' = Inr (case Get v ''x'' of Some val \<Rightarrow> isTruthy h val | None \<Rightarrow> False)"
    if "ParseFloat h ''x'' = None"
  proof -
    have e: "\<not> isTruthy h []" by (simp add: isTruthy_def ToLower_def TrimSpace_def)
    have "resolveValue h v ''x'' = Inr (case Get v ''x'' of Some val \<Rightarrow> val | None \<Rightarrow> [])"
      using that trimmed_TrimSpace [OF t0(2)]
      by (simp add: resolveValue_def isQuoted_def HasPrefix_def HasSuffix_def split: option.splits)
    with e show ?thesis
      using Evaluate_single [of "''x''" h v] t0(2) by (simp add: HasPrefix_def split: option.splits)
  qed
  show "Evaluate h v e =
          (case resolveValue h v e of Inl err \<Rightarrow> Inl err | Inr val \<Rightarrow> Inr (isTruthy h val))"
    if "CHR '' '' \<notin> set e \<and> trimmed e \<and> e \<noteq> ''true'' \<and> e \<noteq> ''false''
        \<and> \<not> (HasPrefix e ''('' \<and> HasSuffix e '')'')"
    using that Evaluate_single by blast
  show "isTruthy h val \<longleftrightarrow>
        TrimSpace (ToLower h val) \<notin> {[], ''false'', ''0'', ''no'', ''off'', ''null'', ''nil'', ''none''}"
    by (simp add: isTruthy_def Let_def)
  show "isTruthy h val \<longleftrightarrow>
        TrimSpace (map toLowerByte val) \<notin> {[], ''false'', ''0'', ''no'', ''off'', ''null'', ''nil'', ''none''}"
    if "list_all (\<lambda>c. (of_char c :: nat) < 128) val"
    using ToLower_ascii [OF that, of h] by (simp add: isTruthy_def Let_def)
qed

theorem single_value_truthiness_witness:
  "ParseFloat (sample_host sample_unmarshal) ''0'' \<noteq> None
   \<and> Evaluate (sample_host sample_unmarshal) (NewVariables (sample_host sample_unmarshal)) ''0''
       = Inr False
   \<and> ParseFloat (sample_host sample_unmarshal) ''x'' = None
   \<and> Evaluate (sample_host sample_unmarshal)
        (SetUserVars (sample_host sample_unmarshal) (NewVariables (sample_host sample_unmarshal))
           [(''x'', ''yes'')]) ''x'' = Inr True
   \<and> (CHR '' '' \<notin> set ''ready'' \<and> trimmed ''ready'' \<and> ''ready'' \<noteq> ''true'' \<and> ''ready'' \<noteq> ''false''
        \<and> \<not> (HasPrefix ''ready'' ''('' \<and> HasSuffix ''ready'' '')''))
   \<and> Evaluate (sample_host sample_unmarshal)
        (SetUserVars (sample_host sample_unmarshal) (NewVariables (sample_host sample_unmarshal))
           [(''ready'', ''Off'')]) ''ready'' = Inr False
   \<and> list_all (\<lambda>c. (of_char c :: nat) < 128) ''Off''
   \<and> \<not> isTruthy (sample_host sample_unmarshal) ''Off''"
proof -
  let ?h = "sample_host sample_unmarshal"
  let ?v = "NewVariables ?h"
  let ?v' = "SetUserVars ?h ?v [(''x'', ''yes'')]"
  let ?v2 = "SetUserVars ?h ?v [(''ready'', ''Off'')]"
  have 1: "ParseFloat ?h ''0'' \<noteq> None"
    by (simp add: sample_host_def sample_ParseFloat_def isDigit_def)
  have 2: "ParseFloat ?h ''x'' = None"
    by (simp add: sample_host_def sample_ParseFloat_def isDigit_def)
  have 3: "Get ?v' ''x'' = Some ''yes''"
    by (simp add: Get_def resolveEnvVars_def matchEnv_def)
  have 4: "isTruthy ?h ''yes''"
    by (simp add: isTruthy_def ToLower_def toLowerByte_def TrimSpace_def spaceRunes_def
          HasPrefix_def)
  have 5: "CHR '' '' \<notin> set ''ready'' \<and> trimmed ''ready'' \<and> ''ready'' \<noteq> ''true'' \<and> ''ready'' \<noteq> ''false''
        \<and> \<not> (HasPrefix ''ready'' ''('' \<and> HasSuffix ''ready'' '')'')"
    by (simp add: trimmed_def TrimSpace_def spaceRunes_def HasPrefix_def)
  have 6: "resolveValue ?h ?v2 ''ready'' = Inr ''Off''"
    by (simp add: resolveValue_def TrimSpace_def spaceRunes_def HasPrefix_def HasSuffix_def
          isQuoted_def sample_host_def sample_ParseFloat_def isDigit_def Get_def
          resolveEnvVars_def matchEnv_def GetTaskResult_def NewVariables_def)
  have 7: "list_all (\<lambda>c. (of_char c :: nat) < 128) ''Off''" by simp
  have "map toLowerByte ''Off'' = ''off''"
    by (simp add: toLowerByte_def char_of_def bit_0)
  then have 8: "TrimSpace (map toLowerByte ''Off'') = ''off''"
    by (simp add: TrimSpace_def spaceRunes_def HasPrefix_def)
  note th = single_value_truthiness [of ?h ?v "''ready''" "''Off''"]
  note th' = single_value_truthiness [of ?h ?v' "''ready''" "''Off''"]
  note th2 = single_value_truthiness [of ?h ?v2 "''ready''" "''Off''"]
  from th 1 have a: "Evaluate ?h ?v ''0'' = Inr False" by blast
  from th' 2
  have "Evaluate ?h ?v' ''x'' = Inr (case Get ?v' ''x'' of Some val \<Rightarrow> isTruthy ?h val | None \<Rightarrow> False)"
    by blast
  then have b: "Evaluate ?h ?v' ''x'' = Inr True" by (simp only: 3 option.case 4)
  from th2 7 have "isTruthy ?h ''Off'' \<longleftrightarrow>
      TrimSpace (map toLowerByte ''Off'')
        \<notin> {[], ''false'', ''0'', ''no'', ''off'', ''null'', ''nil'', ''none''}"
    by blast
  then have d: "\<not> isTruthy ?h ''Off''" unfolding 8 by simp
  from th2 5 have "Evaluate ?h ?v2 ''ready'' =
      (case resolveValue ?h ?v2 ''ready'' of Inl err \<Rightarrow> Inl err | Inr val \<Rightarrow> Inr (isTruthy ?h val))"
    by blast
  then have c: "Evaluate ?h ?v2 ''ready'' = Inr False" using d by (simp only: 6 sum.case)
  from 1 2 a b 5 c 7 d show ?thesis by blast
qed

theorem undefined_x_is_false_counterexample:
  "Evaluate (sample_host sample_unmarshal) (NewVariables (sample_host sample_unmarshal)) ''x''
   \<noteq> Inr True"
  by (simp add: eval_defs sample_host_def sample_ParseFloat_def isDigit_def NewVariables_def
        initBuiltins_def)

lemma resolveValue_undefined:
  assumes "undefinedOperand h v (TrimSpace ref)"
  shows "resolveValue h v ref = Inr []"
proof -
  define r where "r = TrimSpace ref"
  from assms have a: "\<not> isQuoted r" "ParseFloat h r = None" "r \<noteq> ''platform''"
      "r \<noteq> ''arch''" "\<not> HasPrefix r ''env.''" "Get v r = None"
    and b: "(case Cut r ''.'' of
               Some (taskName, property) \<Rightarrow> GetTaskResult v taskName = None
             | None \<Rightarrow> True)"
    by (simp_all add: undefinedOperand_def r_def)
  show ?thesis
  proof (cases "Cut r ''.''")
    case None
    with a show ?thesis
      unfolding resolveValue_def r_def [symmetric] by (simp add: Let_def)
  next
    case (Some tp)
    obtain taskName property where tp: "tp = (taskName, property)" by (cases tp)
    with b Some have "GetTaskResult v taskName = None" by simp
    with a Some tp show ?thesis
      unfolding resolveValue_def r_def [symmetric] by (simp add: Let_def)
  qed
qed

lemma resolveValue_quoted:
  "CHR '' '' \<notin> set c \<Longrightarrow> resolveValue h v ([CHR 0x22] @ c @ [CHR 0x22]) = Inr c"
proof -
  assume nb: "CHR '' '' \<notin> set c"
  let ?lit = "[CHR 0x22] @ c @ [CHR 0x22]"
  have ts: "TrimSpace ?lit = ?lit" by (rule TrimSpace_id) (simp_all add: isSpace_def)
  have q: "isQuoted ?lit" by (simp add: isQuoted_def HasPrefix_def HasSuffix_def)
  show ?thesis
    unfolding resolveValue_def ts using q by (simp add: Let_def)
qed

lemma HasSuffix_last: "HasSuffix s [c] \<Longrightarrow> s \<noteq> [] \<and> last s = c"
proof -
  assume "HasSuffix s [c]"
  then have l: "1 \<le> length s" and d: "drop (length s - 1) s = [c]"
    by (simp_all add: HasSuffix_def)
  from l have ne: "s \<noteq> []" by auto
  have "last (drop (length s - 1) s) = last s"
    using ne by (intro last_drop) simp
  with d ne show ?thesis by simp
qed

lemma not_prefix_not:
  assumes nb: "CHR '' '' \<notin> set u" and ne: "u \<noteq> []" and nn: "u \<noteq> ''not''"
  shows "\<not> HasPrefix (u @ CHR '' '' # r) ''not ''"
proof (cases u)
  case Nil
  with ne show ?thesis by simp
next
  case (Cons a u1)
  note u = Cons
  show ?thesis
  proof (cases u1)
    case Nil
    with u show ?thesis by (simp add: HasPrefix_def)
  next
    case (Cons b u2)
    note u1 = Cons
    show ?thesis
    proof (cases u2)
      case Nil
      with u u1 show ?thesis by (simp add: HasPrefix_def)
    next
      case (Cons c u3)
      note u2 = Cons
      show ?thesis
      proof (cases u3)
        case Nil
        with u u1 u2 nn show ?thesis by (auto simp: HasPrefix_def)
      next
        case (Cons d u4)
        with u u1 u2 nb show ?thesis by (auto simp: HasPrefix_def)
      qed
    qed
  qed
qed

lemma Evaluate_comparison_only:
  assumes t: "trimmed u" and nb: "CHR '' '' \<notin> set u" and nn: "u \<noteq> ''not''"
    and nc: "CHR '' '' \<notin> set c"
    and c1: "\<not> Contains (u @ CHR '' '' # w @ CHR '' '' # [CHR 0x22] @ c @ [CHR 0x22]) '' and ''"
    and c2: "\<not> Contains (u @ CHR '' '' # w @ CHR '' '' # [CHR 0x22] @ c @ [CHR 0x22]) '' or ''"
  shows "Evaluate h v (u @ CHR '' '' # w @ CHR '' '' # [CHR 0x22] @ c @ [CHR 0x22])
           = evaluateComparison h v (u @ CHR '' '' # w @ CHR '' '' # [CHR 0x22] @ c @ [CHR 0x22])"
proof -
  let ?lit = "[CHR 0x22] @ c @ [CHR 0x22]"
  define E where "E = u @ CHR '' '' # w @ CHR '' '' # ?lit"
  have ne: "u \<noteq> []" using t by (simp add: trimmed_def)
  have tl: "trimmed ?lit" by (rule trimmed_ascii) (simp_all add: isSpace_def)
  note f = Evaluate_binary [OF t tl, of w]
  have e1: "\<not> Contains E '' and ''" using c1 by (simp add: E_def)
  have e2: "\<not> Contains E '' or ''" using c2 by (simp add: E_def)
  have s1: "splitOnOperator E '' and '' = []" by (rule splitOnOperator_none) (simp, rule e1)
  have s2: "splitOnOperator E '' or '' = []" by (rule splitOnOperator_none) (simp, rule e2)
  have fE: "TrimSpace E = E" "E \<noteq> []" "E \<noteq> ''true''" "E \<noteq> ''false''"
    unfolding E_def by (rule f)+
  have "last E = CHR 0x22" unfolding E_def by simp
  then have np: "\<not> (HasPrefix E ''('' \<and> HasSuffix E '')'')"
    using HasSuffix_last [of E "CHR '')''"] by auto
  have nnot: "\<not> HasPrefix E ''not ''"
    unfolding E_def using not_prefix_not [OF nb ne nn, of "w @ CHR '' '' # ?lit"] by simp
  have "Evaluate h v E = evaluateComparison h v E"
    by (subst Evaluate.simps [of h v E]) (simp add: fE s1 s2 np nnot Let_def)
  then show ?thesis by (simp add: E_def)
qed

lemma Evaluate_undefined_notcontains:
  assumes un: "undefinedOperand h v u" and nb: "CHR '' '' \<notin> set u" and t: "trimmed u"
    and nn: "u \<noteq> ''not''" and nc: "CHR '' '' \<notin> set c"
  shows "Evaluate h v (u @ '' not contains '' @ [CHR 0x22] @ c @ [CHR 0x22]) = Inr (c \<noteq> [])"
proof -
  let ?lit = "[CHR 0x22] @ c @ [CHR 0x22]"
  define E where "E = u @ '' not contains '' @ ?lit"
  have nl: "CHR '' '' \<notin> set ?lit" using nc by simp
  have nq: "\<not> Contains ?lit (CHR '' '' # p)" for p
    using nl by (rule Contains_no_first)
  have c0: "\<not> Contains E '' and ''"
    unfolding E_def using Contains_skip [OF nb, of "'' not contains '' @ ?lit" "''and ''"] nq [of "''and ''"]
    by (simp add: HasPrefix_def)
  have c1: "\<not> Contains E '' or ''"
    unfolding E_def using Contains_skip [OF nb, of "'' not contains '' @ ?lit" "''or ''"] nq [of "''or ''"]
    by (simp add: HasPrefix_def)
  have hit: "Contains E '' not contains ''"
    unfolding E_def by (rule Contains_append_left) (simp add: HasPrefix_def)
  have "\<not> Contains (u @ butlast '' not contains '') '' not contains ''"
    using Contains_skip [OF nb, of "'' not contains''" "''not contains ''"] by (simp add: HasPrefix_def)
  then have cut: "Cut E '' not contains '' = Some (u, ?lit)"
    unfolding E_def by (intro Cut_first) simp_all
  have tu: "TrimSpace u = u" using t by (rule trimmed_TrimSpace)
  have "undefinedOperand h v (TrimSpace (TrimSpace u))" using un by (simp only: tu)
  then have rl: "resolveValue h v (TrimSpace u) = Inr []" by (rule resolveValue_undefined)
  have tlit: "TrimSpace ?lit = ?lit" by (rule TrimSpace_id) (simp_all add: isSpace_def)
  have rr: "resolveValue h v (TrimSpace ?lit) = Inr c"
    unfolding tlit using nc by (rule resolveValue_quoted)
  have rb: "resolveBoth h v u ?lit = Inr ([], c)"
    using rl rr by (simp add: resolveBoth_def)
  have kh: "compareStrings h v E '' not contains '' (\<lambda>left right. \<not> Contains left right) = Some (Inr (c \<noteq> []))"
    using hit cut rb by (auto simp: compareStrings_def)
  have cmp: "evaluateComparison h v E = Inr (c \<noteq> [])"
    by (simp add: evaluateComparison_def  kh)
  have "Evaluate h v E = evaluateComparison h v E"
    unfolding E_def using Evaluate_comparison_only [OF t nb nn nc, of "''not contains''" h v] c0 c1
    by (simp add: E_def)
  then show ?thesis using cmp by (simp add: E_def)
qed

lemma Evaluate_undefined_contains:
  assumes un: "undefinedOperand h v u" and nb: "CHR '' '' \<notin> set u" and t: "trimmed u"
    and nn: "u \<noteq> ''not''" and nc: "CHR '' '' \<notin> set c"
  shows "Evaluate h v (u @ '' contains '' @ [CHR 0x22] @ c @ [CHR 0x22]) = Inr (c = [])"
proof -
  let ?lit = "[CHR 0x22] @ c @ [CHR 0x22]"
  define E where "E = u @ '' contains '' @ ?lit"
  have nl: "CHR '' '' \<notin> set ?lit" using nc by simp
  have nq: "\<not> Contains ?lit (CHR '' '' # p)" for p
    using nl by (rule Contains_no_first)
  have c0: "\<not> Contains E '' and ''"
    unfolding E_def using Contains_skip [OF nb, of "'' contains '' @ ?lit" "''and ''"] nq [of "''and ''"]
    by (simp add: HasPrefix_def)
  have c1: "\<not> Contains E '' or ''"
    unfolding E_def using Contains_skip [OF nb, of "'' contains '' @ ?lit" "''or ''"] nq [of "''or ''"]
    by (simp add: HasPrefix_def)
  have c2: "\<not> Contains E '' not contains ''"
    unfolding E_def using Contains_skip [OF nb, of "'' contains '' @ ?lit" "''not contains ''"] nq [of "''not contains ''"]
    by (simp add: HasPrefix_def)
  have hit: "Contains E '' contains ''"
    unfolding E_def by (rule Contains_append_left) (simp add: HasPrefix_def)
  have "\<not> Contains (u @ butlast '' contains '') '' contains ''"
    using Contains_skip [OF nb, of "'' contains''" "''contains ''"] by (simp add: HasPrefix_def)
  then have cut: "Cut E '' contains '' = Some (u, ?lit)"
    unfolding E_def by (intro Cut_first) simp_all
  have tu: "TrimSpace u = u" using t by (rule trimmed_TrimSpace)
  have "undefinedOperand h v (TrimSpace (TrimSpace u))" using un by (simp only: tu)
  then have rl: "resolveValue h v (TrimSpace u) = Inr []" by (rule resolveValue_undefined)
  have tlit: "TrimSpace ?lit = ?lit" by (rule TrimSpace_id) (simp_all add: isSpace_def)
  have rr: "resolveValue h v (TrimSpace ?lit) = Inr c"
    unfolding tlit using nc by (rule resolveValue_quoted)
  have rb: "resolveBoth h v u ?lit = Inr ([], c)"
    using rl rr by (simp add: resolveBoth_def)
  have k0: "compareStrings h v E '' not contains '' t1 = None" for t1
    using c2 by (simp add: compareStrings_def)
  have kh: "compareStrings h v E '' contains '' (\<lambda>left right. Contains left right) = Some (Inr (c = []))"
    using hit cut rb by (auto simp: compareStrings_def)
  have cmp: "evaluateComparison h v E = Inr (c = [])"
    by (simp add: evaluateComparison_def k0 kh)
  have "Evaluate h v E = evaluateComparison h v E"
    unfolding E_def using Evaluate_comparison_only [OF t nb nn nc, of "''contains''" h v] c0 c1
    by (simp add: E_def)
  then show ?thesis using cmp by (simp add: E_def)
qed

lemma Evaluate_undefined_ne:
  assumes un: "undefinedOperand h v u" and nb: "CHR '' '' \<notin> set u" and t: "trimmed u"
    and nn: "u \<noteq> ''not''" and nc: "CHR '' '' \<notin> set c"
  shows "Evaluate h v (u @ '' != '' @ [CHR 0x22] @ c @ [CHR 0x22]) = Inr (c \<noteq> [])"
proof -
  let ?lit = "[CHR 0x22] @ c @ [CHR 0x22]"
  define E where "E = u @ '' != '' @ ?lit"
  have nl: "CHR '' '' \<notin> set ?lit" using nc by simp
  have nq: "\<not> Contains ?lit (CHR '' '' # p)" for p
    using nl by (rule Contains_no_first)
  have c0: "\<not> Contains E '' and ''"
    unfolding E_def using Contains_skip [OF nb, of "'' != '' @ ?lit" "''and ''"] nq [of "''and ''"]
    by (simp add: HasPrefix_def)
  have c1: "\<not> Contains E '' or ''"
    unfolding E_def using Contains_skip [OF nb, of "'' != '' @ ?lit" "''or ''"] nq [of "''or ''"]
    by (simp add: HasPrefix_def)
  have c2: "\<not> Contains E '' not contains ''"
    unfolding E_def using Contains_skip [OF nb, of "'' != '' @ ?lit" "''not contains ''"] nq [of "''not contains ''"]
    by (simp add: HasPrefix_def)
  have c3: "\<not> Contains E '' contains ''"
    unfolding E_def using Contains_skip [OF nb, of "'' != '' @ ?lit" "''contains ''"] nq [of "''contains ''"]
    by (simp add: HasPrefix_def)
  have hit: "Contains E '' != ''"
    unfolding E_def by (rule Contains_append_left) (simp add: HasPrefix_def)
  have "\<not> Contains (u @ butlast '' != '') '' != ''"
    using Contains_skip [OF nb, of "'' !=''" "''!= ''"] by (simp add: HasPrefix_def)
  then have cut: "Cut E '' != '' = Some (u, ?lit)"
    unfolding E_def by (intro Cut_first) simp_all
  have tu: "TrimSpace u = u" using t by (rule trimmed_TrimSpace)
  have "undefinedOperand h v (TrimSpace (TrimSpace u))" using un by (simp only: tu)
  then have rl: "resolveValue h v (TrimSpace u) = Inr []" by (rule resolveValue_undefined)
  have tlit: "TrimSpace ?lit = ?lit" by (rule TrimSpace_id) (simp_all add: isSpace_def)
  have rr: "resolveValue h v (TrimSpace ?lit) = Inr c"
    unfolding tlit using nc by (rule resolveValue_quoted)
  have rb: "resolveBoth h v u ?lit = Inr ([], c)"
    using rl rr by (simp add: resolveBoth_def)
  have k0: "compareStrings h v E '' not contains '' t1 = None" for t1
    using c2 by (simp add: compareStrings_def)
  have k1: "compareStrings h v E '' contains '' t1 = None" for t1
    using c3 by (simp add: compareStrings_def)
  have kh: "compareStrings h v E '' != '' (\<lambda>left right. left \<noteq> right) = Some (Inr (c \<noteq> []))"
    using hit cut rb by (auto simp: compareStrings_def)
  have cmp: "evaluateComparison h v E = Inr (c \<noteq> [])"
    by (simp add: evaluateComparison_def k0 k1 kh)
  have "Evaluate h v E = evaluateComparison h v E"
    unfolding E_def using Evaluate_comparison_only [OF t nb nn nc, of "''!=''" h v] c0 c1
    by (simp add: E_def)
  then show ?thesis using cmp by (simp add: E_def)
qed

lemma Evaluate_undefined_eq:
  assumes un: "undefinedOperand h v u" and nb: "CHR '' '' \<notin> set u" and t: "trimmed u"
    and nn: "u \<noteq> ''not''" and nc: "CHR '' '' \<notin> set c"
  shows "Evaluate h v (u @ '' == '' @ [CHR 0x22] @ c @ [CHR 0x22]) = Inr (c = [])"
proof -
  let ?lit = "[CHR 0x22] @ c @ [CHR 0x22]"
  define E where "E = u @ '' == '' @ ?lit"
  have nl: "CHR '' '' \<notin> set ?lit" using nc by simp
  have nq: "\<not> Contains ?lit (CHR '' '' # p)" for p
    using nl by (rule Contains_no_first)
  have c0: "\<not> Contains E '' and ''"
    unfolding E_def using Contains_skip [OF nb, of "'' == '' @ ?lit" "''and ''"] nq [of "''and ''"]
    by (simp add: HasPrefix_def)
  have c1: "\<not> Contains E '' or ''"
    unfolding E_def using Contains_skip [OF nb, of "'' == '' @ ?lit" "''or ''"] nq [of "''or ''"]
    by (simp add: HasPrefix_def)
  have c2: "\<not> Contains E '' not contains ''"
    unfolding E_def using Contains_skip [OF nb, of "'' == '' @ ?lit" "''not contains ''"] nq [of "''not contains ''"]
    by (simp add: HasPrefix_def)
  have c3: "\<not> Contains E '' contains ''"
    unfolding E_def using Contains_skip [OF nb, of "'' == '' @ ?lit" "''contains ''"] nq [of "''contains ''"]
    by (simp add: HasPrefix_def)
  have c4: "\<not> Contains E '' != ''"
    unfolding E_def using Contains_skip [OF nb, of "'' == '' @ ?lit" "''!= ''"] nq [of "''!= ''"]
    by (simp add: HasPrefix_def)
  have hit: "Contains E '' == ''"
    unfolding E_def by (rule Contains_append_left) (simp add: HasPrefix_def)
  have "\<not> Contains (u @ butlast '' == '') '' == ''"
    using Contains_skip [OF nb, of "'' ==''" "''== ''"] by (simp add: HasPrefix_def)
  then have cut: "Cut E '' == '' = Some (u, ?lit)"
    unfolding E_def by (intro Cut_first) simp_all
  have tu: "TrimSpace u = u" using t by (rule trimmed_TrimSpace)
  have "undefinedOperand h v (TrimSpace (TrimSpace u))" using un by (simp only: tu)
  then have rl: "resolveValue h v (TrimSpace u) = Inr []" by (rule resolveValue_undefined)
  have tlit: "TrimSpace ?lit = ?lit" by (rule TrimSpace_id) (simp_all add: isSpace_def)
  have rr: "resolveValue h v (TrimSpace ?lit) = Inr c"
    unfolding tlit using nc by (rule resolveValue_quoted)
  have rb: "resolveBoth h v u ?lit = Inr ([], c)"
    using rl rr by (simp add: resolveBoth_def)
  have k0: "compareStrings h v E '' not contains '' t1 = None" for t1
    using c2 by (simp add: compareStrings_def)
  have k1: "compareStrings h v E '' contains '' t1 = None" for t1
    using c3 by (simp add: compareStrings_def)
  have k2: "compareStrings h v E '' != '' t1 = None" for t1
    using c4 by (simp add: compareStrings_def)
  have kh: "compareStrings h v E '' == '' (\<lambda>left right. left = right) = Some (Inr (c = []))"
    using hit cut rb by (auto simp: compareStrings_def)
  have cmp: "evaluateComparison h v E = Inr (c = [])"
    by (simp add: evaluateComparison_def k0 k1 k2 kh)
  have "Evaluate h v E = evaluateComparison h v E"
    unfolding E_def using Evaluate_comparison_only [OF t nb nn nc, of "''==''" h v] c0 c1
    by (simp add: E_def)
  then show ?thesis using cmp by (simp add: E_def)
qed

lemma Evaluate_undefined_ge:
  assumes un: "undefinedOperand h v u" and nb: "CHR '' '' \<notin> set u" and t: "trimmed u"
    and nn: "u \<noteq> ''not''" and nc: "CHR '' '' \<notin> set c" and pf: "ParseFloat h [] = None"
  shows "Evaluate h v (u @ '' >= '' @ [CHR 0x22] @ c @ [CHR 0x22]) = Inl (EvalError (''numeric comparison requires numeric values: '' @ u @ '' >= '' @ [CHR 0x22] @ c @ [CHR 0x22]))"
proof -
  let ?lit = "[CHR 0x22] @ c @ [CHR 0x22]"
  define E where "E = u @ '' >= '' @ ?lit"
  have nl: "CHR '' '' \<notin> set ?lit" using nc by simp
  have nq: "\<not> Contains ?lit (CHR '' '' # p)" for p
    using nl by (rule Contains_no_first)
  have c0: "\<not> Contains E '' and ''"
    unfolding E_def using Contains_skip [OF nb, of "'' >= '' @ ?lit" "''and ''"] nq [of "''and ''"]
    by (simp add: HasPrefix_def)
  have c1: "\<not> Contains E '' or ''"
    unfolding E_def using Contains_skip [OF nb, of "'' >= '' @ ?lit" "''or ''"] nq [of "''or ''"]
    by (simp add: HasPrefix_def)
  have c2: "\<not> Contains E '' not contains ''"
    unfolding E_def using Contains_skip [OF nb, of "'' >= '' @ ?lit" "''not contains ''"] nq [of "''not contains ''"]
    by (simp add: HasPrefix_def)
  have c3: "\<not> Contains E '' contains ''"
    unfolding E_def using Contains_skip [OF nb, of "'' >= '' @ ?lit" "''contains ''"] nq [of "''contains ''"]
    by (simp add: HasPrefix_def)
  have c4: "\<not> Contains E '' != ''"
    unfolding E_def using Contains_skip [OF nb, of "'' >= '' @ ?lit" "''!= ''"] nq [of "''!= ''"]
    by (simp add: HasPrefix_def)
  have c5: "\<not> Contains E '' == ''"
    unfolding E_def using Contains_skip [OF nb, of "'' >= '' @ ?lit" "''== ''"] nq [of "''== ''"]
    by (simp add: HasPrefix_def)
  have hit: "Contains E '' >= ''"
    unfolding E_def by (rule Contains_append_left) (simp add: HasPrefix_def)
  have "\<not> Contains (u @ butlast '' >= '') '' >= ''"
    using Contains_skip [OF nb, of "'' >=''" "''>= ''"] by (simp add: HasPrefix_def)
  then have cut: "Cut E '' >= '' = Some (u, ?lit)"
    unfolding E_def by (intro Cut_first) simp_all
  have tu: "TrimSpace u = u" using t by (rule trimmed_TrimSpace)
  have "undefinedOperand h v (TrimSpace (TrimSpace u))" using un by (simp only: tu)
  then have rl: "resolveValue h v (TrimSpace u) = Inr []" by (rule resolveValue_undefined)
  have tlit: "TrimSpace ?lit = ?lit" by (rule TrimSpace_id) (simp_all add: isSpace_def)
  have rr: "resolveValue h v (TrimSpace ?lit) = Inr c"
    unfolding tlit using nc by (rule resolveValue_quoted)
  have rb: "resolveBoth h v u ?lit = Inr ([], c)"
    using rl rr by (simp add: resolveBoth_def)
  have k0: "compareStrings h v E '' not contains '' t1 = None" for t1
    using c2 by (simp add: compareStrings_def)
  have k1: "compareStrings h v E '' contains '' t1 = None" for t1
    using c3 by (simp add: compareStrings_def)
  have k2: "compareStrings h v E '' != '' t1 = None" for t1
    using c4 by (simp add: compareStrings_def)
  have k3: "compareStrings h v E '' == '' t1 = None" for t1
    using c5 by (simp add: compareStrings_def)
  have kh: "compareNumbers h v E '' >= '' = Some (Inl (EvalError (''numeric comparison requires numeric values: '' @ E)))"
    using hit cut rb pf by (simp add: compareNumbers_def)
  have cmp: "evaluateComparison h v E = Inl (EvalError (''numeric comparison requires numeric values: '' @ E))"
    by (simp add: evaluateComparison_def k0 k1 k2 k3 kh)
  have "Evaluate h v E = evaluateComparison h v E"
    unfolding E_def using Evaluate_comparison_only [OF t nb nn nc, of "''>=''" h v] c0 c1
    by (simp add: E_def)
  then show ?thesis using cmp by (simp add: E_def)
qed

lemma Evaluate_undefined_le:
  assumes un: "undefinedOperand h v u" and nb: "CHR '' '' \<notin> set u" and t: "trimmed u"
    and nn: "u \<noteq> ''not''" and nc: "CHR '' '' \<notin> set c" and pf: "ParseFloat h [] = None"
  shows "Evaluate h v (u @ '' <= '' @ [CHR 0x22] @ c @ [CHR 0x22]) = Inl (EvalError (''numeric comparison requires numeric values: '' @ u @ '' <= '' @ [CHR 0x22] @ c @ [CHR 0x22]))"
proof -
  let ?lit = "[CHR 0x22] @ c @ [CHR 0x22]"
  define E where "E = u @ '' <= '' @ ?lit"
  have nl: "CHR '' '' \<notin> set ?lit" using nc by simp
  have nq: "\<not> Contains ?lit (CHR '' '' # p)" for p
    using nl by (rule Contains_no_first)
  have c0: "\<not> Contains E '' and ''"
    unfolding E_def using Contains_skip [OF nb, of "'' <= '' @ ?lit" "''and ''"] nq [of "''and ''"]
    by (simp add: HasPrefix_def)
  have c1: "\<not> Contains E '' or ''"
    unfolding E_def using Contains_skip [OF nb, of "'' <= '' @ ?lit" "''or ''"] nq [of "''or ''"]
    by (simp add: HasPrefix_def)
  have c2: "\<not> Contains E '' not contains ''"
    unfolding E_def using Contains_skip [OF nb, of "'' <= '' @ ?lit" "''not contains ''"] nq [of "''not contains ''"]
    by (simp add: HasPrefix_def)
  have c3: "\<not> Contains E '' contains ''"
    unfolding E_def using Contains_skip [OF nb, of "'' <= '' @ ?lit" "''contains ''"] nq [of "''contains ''"]
    by (simp add: HasPrefix_def)
  have c4: "\<not> Contains E '' != ''"
    unfolding E_def using Contains_skip [OF nb, of "'' <= '' @ ?lit" "''!= ''"] nq [of "''!= ''"]
    by (simp add: HasPrefix_def)
  have c5: "\<not> Contains E '' == ''"
    unfolding E_def using Contains_skip [OF nb, of "'' <= '' @ ?lit" "''== ''"] nq [of "''== ''"]
    by (simp add: HasPrefix_def)
  have c6: "\<not> Contains E '' >= ''"
    unfolding E_def using Contains_skip [OF nb, of "'' <= '' @ ?lit" "''>= ''"] nq [of "''>= ''"]
    by (simp add: HasPrefix_def)
  have hit: "Contains E '' <= ''"
    unfolding E_def by (rule Contains_append_left) (simp add: HasPrefix_def)
  have "\<not> Contains (u @ butlast '' <= '') '' <= ''"
    using Contains_skip [OF nb, of "'' <=''" "''<= ''"] by (simp add: HasPrefix_def)
  then have cut: "Cut E '' <= '' = Some (u, ?lit)"
    unfolding E_def by (intro Cut_first) simp_all
  have tu: "TrimSpace u = u" using t by (rule trimmed_TrimSpace)
  have "undefinedOperand h v (TrimSpace (TrimSpace u))" using un by (simp only: tu)
  then have rl: "resolveValue h v (TrimSpace u) = Inr []" by (rule resolveValue_undefined)
  have tlit: "TrimSpace ?lit = ?lit" by (rule TrimSpace_id) (simp_all add: isSpace_def)
  have rr: "resolveValue h v (TrimSpace ?lit) = Inr c"
    unfolding tlit using nc by (rule resolveValue_quoted)
  have rb: "resolveBoth h v u ?lit = Inr ([], c)"
    using rl rr by (simp add: resolveBoth_def)
  have k0: "compareStrings h v E '' not contains '' t1 = None" for t1
    using c2 by (simp add: compareStrings_def)
  have k1: "compareStrings h v E '' contains '' t1 = None" for t1
    using c3 by (simp add: compareStrings_def)
  have k2: "compareStrings h v E '' != '' t1 = None" for t1
    using c4 by (simp add: compareStrings_def)
  have k3: "compareStrings h v E '' == '' t1 = None" for t1
    using c5 by (simp add: compareStrings_def)
  have k4: "compareNumbers h v E '' >= '' = None"
    using c6 by (simp add: compareNumbers_def)
  have kh: "compareNumbers h v E '' <= '' = Some (Inl (EvalError (''numeric comparison requires numeric values: '' @ E)))"
    using hit cut rb pf by (simp add: compareNumbers_def)
  have cmp: "evaluateComparison h v E = Inl (EvalError (''numeric comparison requires numeric values: '' @ E))"
    by (simp add: evaluateComparison_def k0 k1 k2 k3 k4 kh)
  have "Evaluate h v E = evaluateComparison h v E"
    unfolding E_def using Evaluate_comparison_only [OF t nb nn nc, of "''<=''" h v] c0 c1
    by (simp add: E_def)
  then show ?thesis using cmp by (simp add: E_def)
qed

lemma Evaluate_undefined_gt:
  assumes un: "undefinedOperand h v u" and nb: "CHR '' '' \<notin> set u" and t: "trimmed u"
    and nn: "u \<noteq> ''not''" and nc: "CHR '' '' \<notin> set c" and pf: "ParseFloat h [] = None"
  shows "Evaluate h v (u @ '' > '' @ [CHR 0x22] @ c @ [CHR 0x22]) = Inl (EvalError (''numeric comparison requires numeric values: '' @ u @ '' > '' @ [CHR 0x22] @ c @ [CHR 0x22]))"
proof -
  let ?lit = "[CHR 0x22] @ c @ [CHR 0x22]"
  define E where "E = u @ '' > '' @ ?lit"
  have nl: "CHR '' '' \<notin> set ?lit" using nc by simp
  have nq: "\<not> Contains ?lit (CHR '' '' # p)" for p
    using nl by (rule Contains_no_first)
  have c0: "\<not> Contains E '' and ''"
    unfolding E_def using Contains_skip [OF nb, of "'' > '' @ ?lit" "''and ''"] nq [of "''and ''"]
    by (simp add: HasPrefix_def)
  have c1: "\<not> Contains E '' or ''"
    unfolding E_def using Contains_skip [OF nb, of "'' > '' @ ?lit" "''or ''"] nq [of "''or ''"]
    by (simp add: HasPrefix_def)
  have c2: "\<not> Contains E '' not contains ''"
    unfolding E_def using Contains_skip [OF nb, of "'' > '' @ ?lit" "''not contains ''"] nq [of "''not contains ''"]
    by (simp add: HasPrefix_def)
  have c3: "\<not> Contains E '' contains ''"
    unfolding E_def using Contains_skip [OF nb, of "'' > '' @ ?lit" "''contains ''"] nq [of "''contains ''"]
    by (simp add: HasPrefix_def)
  have c4: "\<not> Contains E '' != ''"
    unfolding E_def using Contains_skip [OF nb, of "'' > '' @ ?lit" "''!= ''"] nq [of "''!= ''"]
    by (simp add: HasPrefix_def)
  have c5: "\<not> Contains E '' == ''"
    unfolding E_def using Contains_skip [OF nb, of "'' > '' @ ?lit" "''== ''"] nq [of "''== ''"]
    by (simp add: HasPrefix_def)
  have c6: "\<not> Contains E '' >= ''"
    unfolding E_def using Contains_skip [OF nb, of "'' > '' @ ?lit" "''>= ''"] nq [of "''>= ''"]
    by (simp add: HasPrefix_def)
  have c7: "\<not> Contains E '' <= ''"
    unfolding E_def using Contains_skip [OF nb, of "'' > '' @ ?lit" "''<= ''"] nq [of "''<= ''"]
    by (simp add: HasPrefix_def)
  have hit: "Contains E '' > ''"
    unfolding E_def by (rule Contains_append_left) (simp add: HasPrefix_def)
  have "\<not> Contains (u @ butlast '' > '') '' > ''"
    using Contains_skip [OF nb, of "'' >''" "''> ''"] by (simp add: HasPrefix_def)
  then have cut: "Cut E '' > '' = Some (u, ?lit)"
    unfolding E_def by (intro Cut_first) simp_all
  have tu: "TrimSpace u = u" using t by (rule trimmed_TrimSpace)
  have "undefinedOperand h v (TrimSpace (TrimSpace u))" using un by (simp only: tu)
  then have rl: "resolveValue h v (TrimSpace u) = Inr []" by (rule resolveValue_undefined)
  have tlit: "TrimSpace ?lit = ?lit" by (rule TrimSpace_id) (simp_all add: isSpace_def)
  have rr: "resolveValue h v (TrimSpace ?lit) = Inr c"
    unfolding tlit using nc by (rule resolveValue_quoted)
  have rb: "resolveBoth h v u ?lit = Inr ([], c)"
    using rl rr by (simp add: resolveBoth_def)
  have k0: "compareStrings h v E '' not contains '' t1 = None" for t1
    using c2 by (simp add: compareStrings_def)
  have k1: "compareStrings h v E '' contains '' t1 = None" for t1
    using c3 by (simp add: compareStrings_def)
  have k2: "compareStrings h v E '' != '' t1 = None" for t1
    using c4 by (simp add: compareStrings_def)
  have k3: "compareStrings h v E '' == '' t1 = None" for t1
    using c5 by (simp add: compareStrings_def)
  have k4: "compareNumbers h v E '' >= '' = None"
    using c6 by (simp add: compareNumbers_def)
  have k5: "compareNumbers h v E '' <= '' = None"
    using c7 by (simp add: compareNumbers_def)
  have kh: "compareNumbers h v E '' > '' = Some (Inl (EvalError (''numeric comparison requires numeric values: '' @ E)))"
    using hit cut rb pf by (simp add: compareNumbers_def)
  have cmp: "evaluateComparison h v E = Inl (EvalError (''numeric comparison requires numeric values: '' @ E))"
    by (simp add: evaluateComparison_def k0 k1 k2 k3 k4 k5 kh)
  have "Evaluate h v E = evaluateComparison h v E"
    unfolding E_def using Evaluate_comparison_only [OF t nb nn nc, of "''>''" h v] c0 c1
    by (simp add: E_def)
  then show ?thesis using cmp by (simp add: E_def)
qed

lemma Evaluate_undefined_lt:
  assumes un: "undefinedOperand h v u" and nb: "CHR '' '' \<notin> set u" and t: "trimmed u"
    and nn: "u \<noteq> ''not''" and nc: "CHR '' '' \<notin> set c" and pf: "ParseFloat h [] = None"
  shows "Evaluate h v (u @ '' < '' @ [CHR 0x22] @ c @ [CHR 0x22]) = Inl (EvalError (''numeric comparison requires numeric values: '' @ u @ '' < '' @ [CHR 0x22] @ c @ [CHR 0x22]))"
proof -
  let ?lit = "[CHR 0x22] @ c @ [CHR 0x22]"
  define E where "E = u @ '' < '' @ ?lit"
  have nl: "CHR '' '' \<notin> set ?lit" using nc by simp
  have nq: "\<not> Contains ?lit (CHR '' '' # p)" for p
    using nl by (rule Contains_no_first)
  have c0: "\<not> Contains E '' and ''"
    unfolding E_def using Contains_skip [OF nb, of "'' < '' @ ?lit" "''and ''"] nq [of "''and ''"]
    by (simp add: HasPrefix_def)
  have c1: "\<not> Contains E '' or ''"
    unfolding E_def using Contains_skip [OF nb, of "'' < '' @ ?lit" "''or ''"] nq [of "''or ''"]
    by (simp add: HasPrefix_def)
  have c2: "\<not> Contains E '' not contains ''"
    unfolding E_def using Contains_skip [OF nb, of "'' < '' @ ?lit" "''not contains ''"] nq [of "''not contains ''"]
    by (simp add: HasPrefix_def)
  have c3: "\<not> Contains E '' contains ''"
    unfolding E_def using Contains_skip [OF nb, of "'' < '' @ ?lit" "''contains ''"] nq [of "''contains ''"]
    by (simp add: HasPrefix_def)
  have c4: "\<not> Contains E '' != ''"
    unfolding E_def using Contains_skip [OF nb, of "'' < '' @ ?lit" "''!= ''"] nq [of "''!= ''"]
    by (simp add: HasPrefix_def)
  have c5: "\<not> Contains E '' == ''"
    unfolding E_def using Contains_skip [OF nb, of "'' < '' @ ?lit" "''== ''"] nq [of "''== ''"]
    by (simp add: HasPrefix_def)
  have c6: "\<not> Contains E '' >= ''"
    unfolding E_def using Contains_skip [OF nb, of "'' < '' @ ?lit" "''>= ''"] nq [of "''>= ''"]
    by (simp add: HasPrefix_def)
  have c7: "\<not> Contains E '' <= ''"
    unfolding E_def using Contains_skip [OF nb, of "'' < '' @ ?lit" "''<= ''"] nq [of "''<= ''"]
    by (simp add: HasPrefix_def)
  have c8: "\<not> Contains E '' > ''"
    unfolding E_def using Contains_skip [OF nb, of "'' < '' @ ?lit" "''> ''"] nq [of "''> ''"]
    by (simp add: HasPrefix_def)
  have hit: "Contains E '' < ''"
    unfolding E_def by (rule Contains_append_left) (simp add: HasPrefix_def)
  have "\<not> Contains (u @ butlast '' < '') '' < ''"
    using Contains_skip [OF nb, of "'' <''" "''< ''"] by (simp add: HasPrefix_def)
  then have cut: "Cut E '' < '' = Some (u, ?lit)"
    unfolding E_def by (intro Cut_first) simp_all
  have tu: "TrimSpace u = u" using t by (rule trimmed_TrimSpace)
  have "undefinedOperand h v (TrimSpace (TrimSpace u))" using un by (simp only: tu)
  then have rl: "resolveValue h v (TrimSpace u) = Inr []" by (rule resolveValue_undefined)
  have tlit: "TrimSpace ?lit = ?lit" by (rule TrimSpace_id) (simp_all add: isSpace_def)
  have rr: "resolveValue h v (TrimSpace ?lit) = Inr c"
    unfolding tlit using nc by (rule resolveValue_quoted)
  have rb: "resolveBoth h v u ?lit = Inr ([], c)"
    using rl rr by (simp add: resolveBoth_def)
  have k0: "compareStrings h v E '' not contains '' t1 = None" for t1
    using c2 by (simp add: compareStrings_def)
  have k1: "compareStrings h v E '' contains '' t1 = None" for t1
    using c3 by (simp add: compareStrings_def)
  have k2: "compareStrings h v E '' != '' t1 = None" for t1
    using c4 by (simp add: compareStrings_def)
  have k3: "compareStrings h v E '' == '' t1 = None" for t1
    using c5 by (simp add: compareStrings_def)
  have k4: "compareNumbers h v E '' >= '' = None"
    using c6 by (simp add: compareNumbers_def)
  have k5: "compareNumbers h v E '' <= '' = None"
    using c7 by (simp add: compareNumbers_def)
  have k6: "compareNumbers h v E '' > '' = None"
    using c8 by (simp add: compareNumbers_def)
  have kh: "compareNumbers h v E '' < '' = Some (Inl (EvalError (''numeric comparison requires numeric values: '' @ E)))"
    using hit cut rb pf by (simp add: compareNumbers_def)
  have cmp: "evaluateComparison h v E = Inl (EvalError (''numeric comparison requires numeric values: '' @ E))"
    by (simp add: evaluateComparison_def k0 k1 k2 k3 k4 k5 k6 kh)
  have "Evaluate h v E = evaluateComparison h v E"
    unfolding E_def using Evaluate_comparison_only [OF t nb nn nc, of "''<''" h v] c0 c1
    by (simp add: E_def)
  then show ?thesis using cmp by (simp add: E_def)
qed

lemma resolveValue_unknown_property:
  assumes g: "GetTaskResult v t = Some result" and nd: "CHR ''.'' \<notin> set t"
    and np: "p \<notin> {''stdout'', ''stderr'', ''exit_code'', ''status'', ''changed''}"
    and nq: "\<not> isQuoted (t @ ''.'' @ p)" and nf: "ParseFloat h (t @ ''.'' @ p) = None"
    and ne: "\<not> HasPrefix (t @ ''.'' @ p) ''env.''"
    and ts: "TrimSpace (t @ ''.'' @ p) = t @ ''.'' @ p"
  shows "resolveValue h v (t @ ''.'' @ p) = Inl (EvalError (''unknown task result property: '' @ p))"
proof -
  define r where "r = t @ ''.'' @ p"
  have "\<not> Contains (t @ butlast ''.'') ''.''"
    using Contains_no_first [OF nd, of "[]"] by simp
  then have cut: "Cut r ''.'' = Some (t, p)"
    unfolding r_def by (intro Cut_first) simp_all
  then have con: "Contains r ''.''" using Cut_None_iff [of r "''.''"] by auto
  have m: "CHR ''.'' \<in> set r" by (simp add: r_def)
  have n1: "r \<noteq> ''platform''"
  proof
    assume e: "r = ''platform''"
    from m have "CHR ''.'' \<in> set ''platform''" unfolding e .
    then show False by simp
  qed
  have n2: "r \<noteq> ''arch''"
  proof
    assume e: "r = ''arch''"
    from m have "CHR ''.'' \<in> set ''arch''" unfolding e .
    then show False by simp
  qed
  have a: "TrimSpace r = r" "\<not> isQuoted r" "ParseFloat h r = None" "\<not> HasPrefix r ''env.''"
    using ts nq nf ne by (simp_all add: r_def)
  have "resolveValue h v r = Inl (EvalError (''unknown task result property: '' @ p))"
    unfolding resolveValue_def a(1) using a(2-4) n1 n2 con cut g np by (simp add: Let_def)
  then show ?thesis by (simp add: r_def)
qed

text \<open>
  Claim C10, as amended. An operand that is not a quoted string, not a number, not
  \<open>platform\<close> or \<open>arch\<close>, has no prefix \<open>env.\<close>, is no property of a registered task
  result and no defined user variable or built-in resolves to the empty string, without
  an error. So for such an operand \<open>u\<close> (a single word other than \<open>not\<close>) and a quoted
  literal without blank, the comparisons of texts yield a truth value: \<open>==\<close> and
  \<open>contains\<close> are true exactly for the empty literal \<open>""\<close>, \<open>!=\<close> and
  \<open>not contains\<close> exactly for the others. The comparisons of numbers \<open>>=\<close>, \<open><=\<close>,
  \<open>>\<close> and \<open><\<close> do not: the empty string is no number, and they end with the error
  \<open>numeric comparison requires numeric values\<close>. The operand \<open>u\<close> alone (not \<open>true\<close>
  and not in parentheses) evaluates to false. The name of a registered task result
  followed by a dot and a property other than \<open>stdout\<close>, \<open>stderr\<close>, \<open>exit_code\<close>,
  \<open>status\<close> and \<open>changed\<close>, in an operand that is not taken as quoted, numeric or an
  \<open>env.\<close> reference first, is an error.
\<close>

theorem undefined_operand_resolves_empty:
  "(undefinedOperand h v (TrimSpace ref) \<longrightarrow> resolveValue h v ref = Inr [])
   \<and> (undefinedOperand h v u \<and> CHR '' '' \<notin> set u \<and> trimmed u \<and> u \<noteq> ''not''
        \<and> CHR '' '' \<notin> set c \<longrightarrow>
        Evaluate h v (u @ '' == '' @ [CHR 0x22] @ c @ [CHR 0x22]) = Inr (c = [])
        \<and> Evaluate h v (u @ '' != '' @ [CHR 0x22] @ c @ [CHR 0x22]) = Inr (c \<noteq> [])
        \<and> Evaluate h v (u @ '' contains '' @ [CHR 0x22] @ c @ [CHR 0x22]) = Inr (c = [])
        \<and> Evaluate h v (u @ '' not contains '' @ [CHR 0x22] @ c @ [CHR 0x22]) = Inr (c \<noteq> [])
        \<and> (ParseFloat h [] = None \<longrightarrow>
             Evaluate h v (u @ '' >= '' @ [CHR 0x22] @ c @ [CHR 0x22])
               = Inl (EvalError (''numeric comparison requires numeric values: ''
                                  @ u @ '' >= '' @ [CHR 0x22] @ c @ [CHR 0x22]))
             \<and> Evaluate h v (u @ '' <= '' @ [CHR 0x22] @ c @ [CHR 0x22])
               = Inl (EvalError (''numeric comparison requires numeric values: ''
                                  @ u @ '' <= '' @ [CHR 0x22] @ c @ [CHR 0x22]))
             \<and> Evaluate h v (u @ '' > '' @ [CHR 0x22] @ c @ [CHR 0x22])
               = Inl (EvalError (''numeric comparison requires numeric values: ''
                                  @ u @ '' > '' @ [CHR 0x22] @ c @ [CHR 0x22]))
             \<and> Evaluate h v (u @ '' < '' @ [CHR 0x22] @ c @ [CHR 0x22])
               = Inl (EvalError (''numeric comparison requires numeric values: ''
                                  @ u @ '' < '' @ [CHR 0x22] @ c @ [CHR 0x22]))))
   \<and> (undefinedOperand h v u \<and> CHR '' '' \<notin> set u \<and> trimmed u \<and> u \<noteq> ''true''
        \<and> \<not> (HasPrefix u ''('' \<and> HasSuffix u '')'') \<longrightarrow>
        Evaluate h v u = Inr False)
   \<and> (GetTaskResult v t = Some result \<and> CHR ''.'' \<notin> set t
        \<and> p \<notin> {''stdout'', ''stderr'', ''exit_code'', ''status'', ''changed''}
        \<and> \<not> isQuoted (t @ ''.'' @ p) \<and> ParseFloat h (t @ ''.'' @ p) = None
        \<and> \<not> HasPrefix (t @ ''.'' @ p) ''env.'' \<and> TrimSpace (t @ ''.'' @ p) = t @ ''.'' @ p \<longrightarrow>
        resolveValue h v (t @ ''.'' @ p)
          = Inl (EvalError (''unknown task result property: '' @ p)))"
  (is "?A \<and> ?B \<and> ?C \<and> ?D")
proof (intro conjI)
  show ?A using resolveValue_undefined by blast
  show ?B (is "?H \<longrightarrow> ?G")
  proof (rule impI)
    assume ?H
    then have un: "undefinedOperand h v u" and nb: "CHR '' '' \<notin> set u" and t: "trimmed u"
      and nn: "u \<noteq> ''not''" and nc: "CHR '' '' \<notin> set c"
      by simp_all
    show ?G
    proof (intro conjI impI)
      show "Evaluate h v (u @ '' == '' @ [CHR 0x22] @ c @ [CHR 0x22]) = Inr (c = [])"
        using un nb t nn nc by (rule Evaluate_undefined_eq)
      show "Evaluate h v (u @ '' != '' @ [CHR 0x22] @ c @ [CHR 0x22]) = Inr (c \<noteq> [])"
        using un nb t nn nc by (rule Evaluate_undefined_ne)
      show "Evaluate h v (u @ '' contains '' @ [CHR 0x22] @ c @ [CHR 0x22]) = Inr (c = [])"
        using un nb t nn nc by (rule Evaluate_undefined_contains)
      show "Evaluate h v (u @ '' not contains '' @ [CHR 0x22] @ c @ [CHR 0x22]) = Inr (c \<noteq> [])"
        using un nb t nn nc by (rule Evaluate_undefined_notcontains)
      show "Evaluate h v (u @ '' >= '' @ [CHR 0x22] @ c @ [CHR 0x22])
               = Inl (EvalError (''numeric comparison requires numeric values: ''
                                  @ u @ '' >= '' @ [CHR 0x22] @ c @ [CHR 0x22]))"
        if "ParseFloat h [] = None"
        using un nb t nn nc that by (rule Evaluate_undefined_ge)
      show "Evaluate h v (u @ '' <= '' @ [CHR 0x22] @ c @ [CHR 0x22])
               = Inl (EvalError (''numeric comparison requires numeric values: ''
                                  @ u @ '' <= '' @ [CHR 0x22] @ c @ [CHR 0x22]))"
        if "ParseFloat h [] = None"
        using un nb t nn nc that by (rule Evaluate_undefined_le)
      show "Evaluate h v (u @ '' > '' @ [CHR 0x22] @ c @ [CHR 0x22])
               = Inl (EvalError (''numeric comparison requires numeric values: ''
                                  @ u @ '' > '' @ [CHR 0x22] @ c @ [CHR 0x22]))"
        if "ParseFloat h [] = None"
        using un nb t nn nc that by (rule Evaluate_undefined_gt)
      show "Evaluate h v (u @ '' < '' @ [CHR 0x22] @ c @ [CHR 0x22])
               = Inl (EvalError (''numeric comparison requires numeric values: ''
                                  @ u @ '' < '' @ [CHR 0x22] @ c @ [CHR 0x22]))"
        if "ParseFloat h [] = None"
        using un nb t nn nc that by (rule Evaluate_undefined_lt)
    qed
  qed
  show ?C (is "?H \<longrightarrow> ?G")
  proof (rule impI)
    assume a: ?H
    show ?G
    proof (cases "u = ''false''")
      case True
      then show ?thesis
        by (subst Evaluate.simps) (simp add: TrimSpace_def spaceRunes_def HasPrefix_def)
    next
      case False
      from a have "TrimSpace u = u" by (simp add: trimmed_TrimSpace)
      with a have "undefinedOperand h v (TrimSpace u)" by simp
      then have "resolveValue h v u = Inr []" by (rule resolveValue_undefined)
      moreover have "\<not> isTruthy h []" by (simp add: isTruthy_def ToLower_def TrimSpace_def)
      ultimately show ?thesis
        using Evaluate_single [of u h v] a False by simp
    qed
  qed
  show ?D using resolveValue_unknown_property [of v t result p h] by blast
qed

theorem undefined_operand_resolves_empty_witness:
  "undefinedOperand (sample_host sample_unmarshal)
     (SetTaskResult (NewVariables (sample_host sample_unmarshal)) ''probe'' (newResult (sample_task ''t1'' ''echo'' [])))
     (TrimSpace '' undefined_var '')
   \<and> resolveValue (sample_host sample_unmarshal)
        (SetTaskResult (NewVariables (sample_host sample_unmarshal)) ''probe'' (newResult (sample_task ''t1'' ''echo'' [])))
        '' undefined_var '' = Inr []
   \<and> undefinedOperand (sample_host sample_unmarshal)
     (SetTaskResult (NewVariables (sample_host sample_unmarshal)) ''probe'' (newResult (sample_task ''t1'' ''echo'' [])))
     ''undefined_var''
   \<and> ParseFloat (sample_host sample_unmarshal) [] = None
   \<and> Evaluate (sample_host sample_unmarshal)
        (SetTaskResult (NewVariables (sample_host sample_unmarshal)) ''probe'' (newResult (sample_task ''t1'' ''echo'' [])))
        (''undefined_var'' @ '' == '' @ [CHR 0x22] @ [] @ [CHR 0x22]) = Inr True
   \<and> Evaluate (sample_host sample_unmarshal)
        (SetTaskResult (NewVariables (sample_host sample_unmarshal)) ''probe'' (newResult (sample_task ''t1'' ''echo'' [])))
        (''undefined_var'' @ '' > '' @ [CHR 0x22] @ [] @ [CHR 0x22])
       = Inl (EvalError (''numeric comparison requires numeric values: ''
                          @ ''undefined_var'' @ '' > '' @ [CHR 0x22] @ [] @ [CHR 0x22]))
   \<and> Evaluate (sample_host sample_unmarshal)
        (SetTaskResult (NewVariables (sample_host sample_unmarshal)) ''probe'' (newResult (sample_task ''t1'' ''echo'' [])))
        ''undefined_var'' = Inr False
   \<and> resolveValue (sample_host sample_unmarshal)
        (SetTaskResult (NewVariables (sample_host sample_unmarshal)) ''probe'' (newResult (sample_task ''t1'' ''echo'' [])))
        (''probe'' @ ''.'' @ ''bogus'') = Inl (EvalError (''unknown task result property: '' @ ''bogus''))"
proof -
  let ?h = "sample_host sample_unmarshal"
  let ?v = "SetTaskResult (NewVariables ?h) ''probe'' (newResult (sample_task ''t1'' ''echo'' []))"
  have 1: "undefinedOperand ?h ?v ''undefined_var''"
    by (simp add: undefinedOperand_def isQuoted_def HasPrefix_def HasSuffix_def sample_host_def
          sample_ParseFloat_def isDigit_def Get_def GetTaskResult_def SetTaskResult_def
          NewVariables_def initBuiltins_def)
  have ts: "TrimSpace '' undefined_var '' = ''undefined_var''"
    by (simp add: TrimSpace_def spaceRunes_def HasPrefix_def)
  have 0: "undefinedOperand ?h ?v (TrimSpace '' undefined_var '')"
    using 1 by (simp only: ts)
  have 2: "CHR '' '' \<notin> set ''undefined_var''" "trimmed ''undefined_var''"
    "''undefined_var'' \<noteq> ''not''" "''undefined_var'' \<noteq> ''true''"
    "\<not> (HasPrefix ''undefined_var'' ''('' \<and> HasSuffix ''undefined_var'' '')'')"
    by (simp_all add: trimmed_def TrimSpace_def spaceRunes_def HasPrefix_def)
  have 3: "GetTaskResult ?v ''probe'' = Some (newResult (sample_task ''t1'' ''echo'' []))"
    "CHR ''.'' \<notin> set ''probe''"
    "''bogus'' \<notin> {''stdout'', ''stderr'', ''exit_code'', ''status'', ''changed''}"
    "\<not> isQuoted (''probe'' @ ''.'' @ ''bogus'')"
    "ParseFloat ?h (''probe'' @ ''.'' @ ''bogus'') = None"
    "\<not> HasPrefix (''probe'' @ ''.'' @ ''bogus'') ''env.''"
    "TrimSpace (''probe'' @ ''.'' @ ''bogus'') = ''probe'' @ ''.'' @ ''bogus''"
    by (simp_all add: GetTaskResult_def SetTaskResult_def isQuoted_def HasPrefix_def HasSuffix_def
          sample_host_def sample_ParseFloat_def isDigit_def TrimSpace_def spaceRunes_def)
  have pf: "ParseFloat ?h [] = None" by (simp add: sample_host_def sample_ParseFloat_def)
  note th = undefined_operand_resolves_empty [where h = ?h and v = ?v
      and ref = "'' undefined_var ''" and u = "''undefined_var''" and c = "[]"
      and t = "''probe''" and result = "newResult (sample_task ''t1'' ''echo'' [])"
      and p = "''bogus''"]
  have r: "resolveValue ?h ?v '' undefined_var '' = Inr []"
    by (rule mp [OF th [THEN conjunct1] 0])
  have p: "undefinedOperand ?h ?v ''undefined_var'' \<and> CHR '' '' \<notin> set ''undefined_var''
      \<and> trimmed ''undefined_var'' \<and> ''undefined_var'' \<noteq> ''not''
      \<and> CHR '' '' \<notin> set ([] :: string)"
    using 1 2(1) 2(2) 2(3) by simp
  note q = mp [OF th [THEN conjunct2, THEN conjunct1] p]
  have a: "Evaluate ?h ?v (''undefined_var'' @ '' == '' @ [CHR 0x22] @ [] @ [CHR 0x22])
      = Inr ([] = ([] :: string))"
    by (rule q [THEN conjunct1])
  note n = mp [OF q [THEN conjunct2, THEN conjunct2, THEN conjunct2, THEN conjunct2] pf]
  have g: "Evaluate ?h ?v (''undefined_var'' @ '' > '' @ [CHR 0x22] @ [] @ [CHR 0x22])
       = Inl (EvalError (''numeric comparison requires numeric values: ''
                          @ ''undefined_var'' @ '' > '' @ [CHR 0x22] @ [] @ [CHR 0x22]))"
    by (rule n [THEN conjunct2, THEN conjunct2, THEN conjunct1])
  have 5: "undefinedOperand ?h ?v ''undefined_var'' \<and> CHR '' '' \<notin> set ''undefined_var''
      \<and> trimmed ''undefined_var'' \<and> ''undefined_var'' \<noteq> ''true''
      \<and> \<not> (HasPrefix ''undefined_var'' ''('' \<and> HasSuffix ''undefined_var'' '')'')"
    using 1 2(1) 2(2) 2(4) 2(5) by (intro conjI)
  have b: "Evaluate ?h ?v ''undefined_var'' = Inr False"
    by (rule mp [OF th [THEN conjunct2, THEN conjunct2, THEN conjunct1] 5])
  have 6: "GetTaskResult ?v ''probe'' = Some (newResult (sample_task ''t1'' ''echo'' []))
        \<and> CHR ''.'' \<notin> set ''probe''
        \<and> ''bogus'' \<notin> {''stdout'', ''stderr'', ''exit_code'', ''status'', ''changed''}
        \<and> \<not> isQuoted (''probe'' @ ''.'' @ ''bogus'')
        \<and> ParseFloat ?h (''probe'' @ ''.'' @ ''bogus'') = None
        \<and> \<not> HasPrefix (''probe'' @ ''.'' @ ''bogus'') ''env.''
        \<and> TrimSpace (''probe'' @ ''.'' @ ''bogus'') = ''probe'' @ ''.'' @ ''bogus''"
    using 3 by (intro conjI)
  have c: "resolveValue ?h ?v (''probe'' @ ''.'' @ ''bogus'')
      = Inl (EvalError (''unknown task result property: '' @ ''bogus''))"
    by (rule mp [OF th [THEN conjunct2, THEN conjunct2, THEN conjunct2] 6])
  from 0 r 1 pf a g b c show ?thesis by simp
qed

theorem undefined_numeric_comparison_counterexample:
  "undefinedOperand (sample_host sample_unmarshal) (NewVariables (sample_host sample_unmarshal))
     ''undefined_var''
   \<and> Evaluate (sample_host sample_unmarshal) (NewVariables (sample_host sample_unmarshal))
       ''undefined_var > 0''
     = Inl (EvalError ''numeric comparison requires numeric values: undefined_var > 0'')"
  by (simp add: eval_defs undefinedOperand_def sample_host_def sample_ParseFloat_def isDigit_def
        NewVariables_def initBuiltins_def)

end
